theory Spec2Isabelle
  imports Main
begin

section \<open>JavaScript strings\<close>

text \<open>
  Strings are lists of code units; \<^typ>\<open>char\<close> has 256 values, so the model covers the
  code units below 256. Of the characters JavaScript counts as white space (the class
  \<^verbatim>\<open>\s\<close> of a regular expression and what \<^verbatim>\<open>trim\<close> removes) these are
  TAB, LF, VT, FF, CR, SPACE and NBSP.
\<close>

definition is_space :: "char \<Rightarrow> bool" where
  "is_space c = (c \<in> set [CHR 0x09, CHR 0x0A, CHR 0x0B, CHR 0x0C, CHR 0x0D, CHR 0x20, CHR 0xA0])"

text \<open>\<^verbatim>\<open>s.trim()\<close>\<close>

definition trim :: "string \<Rightarrow> string" where
  "trim s = rev (dropWhile is_space (rev (dropWhile is_space s)))"

text \<open>\<^verbatim>\<open>s.startsWith(p)\<close>\<close>

fun startsWith :: "string \<Rightarrow> string \<Rightarrow> bool" where
  "startsWith s [] = True"
| "startsWith [] (p # ps) = False"
| "startsWith (c # cs) (p # ps) = (c = p \<and> startsWith cs ps)"

text \<open>\<^verbatim>\<open>s.includes(sub)\<close>: \<open>sub\<close> starts at some index of \<open>s\<close>.\<close>

fun includes_str :: "string \<Rightarrow> string \<Rightarrow> bool" where
  "includes_str [] sub = (sub = [])"
| "includes_str (c # cs) sub = (startsWith (c # cs) sub \<or> includes_str cs sub)"

text \<open>
  \<^verbatim>\<open>chunk.toString().split('\n\n')\<close>: the pieces between the occurrences of two
  line feeds, found from left to right without overlap. The first argument holds the
  current piece, reversed.
\<close>

fun split_from :: "string \<Rightarrow> string \<Rightarrow> string list" where
  "split_from acc [] = [rev acc]"
| "split_from acc [c] = [rev (c # acc)]"
| "split_from acc (c # d # cs) =
     (if c = CHR 0x0A \<and> d = CHR 0x0A then rev acc # split_from [] cs
      else split_from (c # acc) (d # cs))"

definition split_nn :: "string \<Rightarrow> string list" where
  "split_nn chunk = split_from [] chunk"

section \<open>JSON values and the platform\<close>

text \<open>
  What \<^verbatim>\<open>JSON.parse\<close> returns. Numbers are IEEE doubles and regular expression
  objects belong to the engine: both are kept abstract.
\<close>

typedecl js_number
typedecl regexp

instantiation js_number :: equal
begin

definition equal_js_number :: "js_number \<Rightarrow> js_number \<Rightarrow> bool" where
  "equal_js_number a b = (a = b)"

instance
  by standard (simp add: equal_js_number_def)

end

instantiation regexp :: equal
begin

definition equal_regexp :: "regexp \<Rightarrow> regexp \<Rightarrow> bool" where
  "equal_regexp a b = (a = b)"

instance
  by standard (simp add: equal_regexp_def)

end

datatype json =
    JNull
  | JBool bool
  | JNum js_number
  | JStr string
  | JArr "json list"
  | JObj "(string \<times> json) list"

text \<open>An exclusion pattern of \<^verbatim>\<open>readData\<close>: \<^verbatim>\<open>RegExp | string\<close>.\<close>

datatype pattern = RegExp regexp | Str string

text \<open>
  The functions the module takes from the platform, from packages and from other
  modules of the repository. They are parameters of the model:
  \<^item> \<open>json_parse\<close> is \<^verbatim>\<open>JSON.parse\<close>; \<open>Inl e\<close> is a thrown error, \<open>e\<close> its rendering
    in a template literal;
  \<^item> \<open>json_stringify\<close> is \<^verbatim>\<open>JSON.stringify(v, null, 2)\<close>;
  \<^item> \<open>js_string\<close> is the conversion of a value to a string by \<^verbatim>\<open>+\<close> and by template
    literals;
  \<^item> \<open>num_truthy\<close> tells whether a number is truthy;
  \<^item> \<open>null_read_error\<close> is the rendering of the TypeError that reading a property of
    \<^verbatim>\<open>null\<close> throws;
  \<^item> \<open>match_found\<close> tells whether \<^verbatim>\<open>s.match(p)\<close> is not \<^verbatim>\<open>null\<close> (the pattern has
    no sticky flag, so the call keeps no state);
  \<^item> \<open>stripRegexPatterns\<close> is the helper of \<^verbatim>\<open>./strip-regex-patterns\<close>, called
    with the value \<^verbatim>\<open>parseContent\<close> returned, whatever its type at run time; \<open>None\<close>
    is a call that throws (the helper is declared for strings);
  \<^item> \<open>dedent\<close> is the template tag of the package \<^verbatim>\<open>dedent\<close>, applied to the raw
    segments of a template and its interpolated values.
\<close>

record env =
  json_parse :: "string \<Rightarrow> string + json"
  json_stringify :: "json \<Rightarrow> string"
  js_string :: "json \<Rightarrow> string"
  num_truthy :: "js_number \<Rightarrow> bool"
  null_read_error :: string
  match_found :: "pattern \<Rightarrow> string \<Rightarrow> bool"
  stripRegexPatterns :: "json \<Rightarrow> pattern option list \<Rightarrow> json option"
  dedent :: "string list \<Rightarrow> string list \<Rightarrow> string"

text \<open>Truthiness of a JSON value.\<close>

fun truthy :: "env \<Rightarrow> json \<Rightarrow> bool" where
  "truthy e JNull = False"
| "truthy e (JBool b) = b"
| "truthy e (JNum n) = num_truthy e n"
| "truthy e (JStr s) = (s \<noteq> [])"
| "truthy e (JArr xs) = True"
| "truthy e (JObj kvs) = True"

text \<open>A value under \<^verbatim>\<open>+\<close> with a string, or in a template literal.\<close>

definition to_string :: "env \<Rightarrow> json \<Rightarrow> string" where
  "to_string e v =
     (case v of
        JStr s \<Rightarrow> s
      | JNull \<Rightarrow> ''null''
      | JBool b \<Rightarrow> (if b then ''true'' else ''false'')
      | _ \<Rightarrow> js_string e v)"

abbreviation texts :: "env \<Rightarrow> json list \<Rightarrow> string list" where
  "texts e vs \<equiv> map (to_string e) vs"

text \<open>
  Property reads on a value that is neither \<^verbatim>\<open>null\<close> nor \<^verbatim>\<open>undefined\<close>;
  \<open>None\<close> is \<^verbatim>\<open>undefined\<close>. Only the reads of \<^verbatim>\<open>parseContent\<close> are needed: a
  named field (none of \<^verbatim>\<open>choices\<close>, \<^verbatim>\<open>delta\<close>, \<^verbatim>\<open>content\<close> is a property of an
  array, a string, a number or a boolean) and the index \<^verbatim>\<open>0\<close>. An object lists
  each of its keys once, as \<^verbatim>\<open>JSON.parse\<close> builds it.
\<close>

fun get_field :: "json \<Rightarrow> string \<Rightarrow> json option" where
  "get_field (JObj kvs) k = map_of kvs k"
| "get_field v k = None"

fun get_index0 :: "json \<Rightarrow> json option" where
  "get_index0 (JArr []) = None"
| "get_index0 (JArr (x # xs)) = Some x"
| "get_index0 (JObj kvs) = map_of kvs ''0''"
| "get_index0 (JStr []) = None"
| "get_index0 (JStr (c # cs)) = Some (JStr [c])"
| "get_index0 v = None"

text \<open>An optional-chaining step \<^verbatim>\<open>x?.p\<close>: \<^verbatim>\<open>undefined\<close> when \<open>x\<close> is nullish.\<close>

fun opt_chain :: "json option \<Rightarrow> (json \<Rightarrow> json option) \<Rightarrow> json option" where
  "opt_chain None f = None"
| "opt_chain (Some JNull) f = None"
| "opt_chain (Some v) f = f v"

section \<open>parseContent\<close>

text \<open>
  \<^verbatim>\<open>payload.replaceAll(/(\n)?^data:\s*/g, '')\<close>. The expression has no \<^verbatim>\<open>m\<close> flag, so
  \<^verbatim>\<open>^\<close> holds at index 0 only, where the optional line feed before it can match
  nothing: the one possible match is \<^verbatim>\<open>data:\<close> at the start of the payload, followed
  by the longest run of white space.
\<close>

definition strip_data_prefix :: "string \<Rightarrow> string" where
  "strip_data_prefix payload =
     (if startsWith payload ''data:'' then dropWhile is_space (drop 5 payload) else payload)"

text \<open>\<^verbatim>\<open>`Error with JSON.parse and ${payload}.\n${error}`\<close>\<close>

definition parse_diagnostic :: "string \<Rightarrow> string \<Rightarrow> string" where
  "parse_diagnostic payload err =
     ''Error with JSON.parse and '' @ payload @ ''.'' @ [CHR 0x0A] @ err"

text \<open>
  \<^verbatim>\<open>delta.choices?.[0]?.delta?.content ?? ''\<close>: \<open>Inl\<close> is the TypeError of
  \<^verbatim>\<open>delta.choices\<close> on \<^verbatim>\<open>null\<close>. The function is declared to return a string, but
  nothing converts the content: a content that is not a string (a number, a boolean, an
  array, an object) is returned as it is, and only \<^verbatim>\<open>null\<close> and \<^verbatim>\<open>undefined\<close> are
  replaced by the empty string.
\<close>

definition delta_content :: "env \<Rightarrow> json \<Rightarrow> string + json" where
  "delta_content e delta =
     (case delta of
        JNull \<Rightarrow> Inl (null_read_error e)
      | _ \<Rightarrow>
        (case opt_chain (opt_chain (opt_chain (get_field delta ''choices'') get_index0)
                 (\<lambda>c. get_field c ''delta'')) (\<lambda>d. get_field d ''content'') of
           None \<Rightarrow> Inr (JStr [])
         | Some JNull \<Rightarrow> Inr (JStr [])
         | Some v \<Rightarrow> Inr v))"

definition parseContent :: "env \<Rightarrow> string \<Rightarrow> json" where
  "parseContent e payload =
     (let data = strip_data_prefix payload in
      case json_parse e (trim data) of
        Inl err \<Rightarrow> JStr (parse_diagnostic payload err)
      | Inr delta \<Rightarrow>
        (case delta_content e delta of
           Inl err \<Rightarrow> JStr (parse_diagnostic payload err)
         | Inr content \<Rightarrow> content))"

section \<open>readFullResponse\<close>

text \<open>
  The asynchronous generator is the list of the chunks it will yield. The result is
  the returned text and the chunks that were never pulled from the generator.
  \<open>rfr_payloads\<close> is the inner loop over the payloads of one chunk: \<open>Inl\<close> is the
  \<^verbatim>\<open>return\<close> at \<^verbatim>\<open>[DONE]\<close>, \<open>Inr\<close> the text after the last payload.
  \<^verbatim>\<open>fullResponse += content\<close> appends the content as a string.
\<close>

fun rfr_payloads :: "env \<Rightarrow> string \<Rightarrow> string list \<Rightarrow> string + string" where
  "rfr_payloads e fullResponse [] = Inr fullResponse"
| "rfr_payloads e fullResponse (payload # payloads) =
     (if includes_str payload ''[DONE]'' then Inl fullResponse
      else if startsWith payload ''data:''
      then rfr_payloads e (fullResponse @ to_string e (parseContent e payload)) payloads
      else rfr_payloads e fullResponse payloads)"

fun rfr_chunks :: "env \<Rightarrow> string \<Rightarrow> string list \<Rightarrow> string \<times> string list" where
  "rfr_chunks e fullResponse [] = (fullResponse, [])"
| "rfr_chunks e fullResponse (chunk # chunks) =
     (case rfr_payloads e fullResponse (split_nn chunk) of
        Inl r \<Rightarrow> (r, chunks)
      | Inr r \<Rightarrow> rfr_chunks e r chunks)"

definition readFullResponse :: "env \<Rightarrow> string list \<Rightarrow> string \<times> string list" where
  "readFullResponse e iterableStream = rfr_chunks e [] iterableStream"

text \<open>
  The content deltas of the \<^verbatim>\<open>data:\<close> payloads of a list of payloads: the values
  \<^verbatim>\<open>parseContent\<close> returns for them, in order.
\<close>

definition deltas :: "env \<Rightarrow> string list \<Rightarrow> json list" where
  "deltas e payloads = map (parseContent e) (filter (\<lambda>p. startsWith p ''data:'') payloads)"

definition is_done :: "string \<Rightarrow> bool" where
  "is_done payload = includes_str payload ''[DONE]''"

section \<open>readData\<close>

text \<open>
  The variables of one call: \<open>written\<close> lists the arguments of the calls of
  \<^verbatim>\<open>writer\<close>, in order.
\<close>

record rd_state =
  stopTextStream :: bool
  data :: string
  dataStart :: bool
  buffer :: string
  written :: "json list"

definition rd_init :: rd_state where
  "rd_init = \<lparr>stopTextStream = False, data = [], dataStart = False, buffer = [], written = []\<rparr>"

text \<open>\<^verbatim>\<open>const [excludedPrefix] = excluded\<close>; an entry may be \<^verbatim>\<open>undefined\<close>.\<close>

definition excludedPrefix :: "pattern option list \<Rightarrow> pattern option" where
  "excludedPrefix excluded = (case excluded of [] \<Rightarrow> None | p # _ \<Rightarrow> p)"

fun pattern_truthy :: "pattern option \<Rightarrow> bool" where
  "pattern_truthy None = False"
| "pattern_truthy (Some (RegExp r)) = True"
| "pattern_truthy (Some (Str s)) = (s \<noteq> [])"

text \<open>
  \<^verbatim>\<open>buffer.match(excludedPrefix ?? '')\<close> as a condition. The empty string is the
  expression that matches at index 0 of every string.
\<close>

definition buffer_match :: "env \<Rightarrow> pattern option \<Rightarrow> string \<Rightarrow> bool" where
  "buffer_match e p buf =
     (case p of
        None \<Rightarrow> True
      | Some (Str []) \<Rightarrow> True
      | Some q \<Rightarrow> match_found e q buf)"

text \<open>The listener of \<^verbatim>\<open>keypress\<close>, called with the name of the key.\<close>

definition stopTextStreamKeys :: "string list" where
  "stopTextStreamKeys = [''q'', ''escape'']"

definition on_keypress :: "rd_state \<Rightarrow> string \<Rightarrow> rd_state" where
  "on_keypress st name =
     (if name \<in> set stopTextStreamKeys then st\<lparr>stopTextStream := True\<rparr> else st)"

text \<open>
  The body of the inner loop for one payload, and how it leaves: \<open>Resolve\<close> is
  \<^verbatim>\<open>resolve(data); return\<close>, \<open>Break\<close> the \<^verbatim>\<open>break\<close> out of the loop over the payloads
  of the chunk, \<open>Continue\<close> the end of the body. \<open>rd_content\<close> is the part that
  follows \<^verbatim>\<open>content = parseContent(payload)\<close>: \<^verbatim>\<open>buffer += content\<close> and
  \<^verbatim>\<open>data += contentWithoutExcluded\<close> append the value as a string, the test
  \<^verbatim>\<open>dataStart && content\<close> is on the value itself, and the helper and the sink are
  called with values. \<open>Throw\<close> is an exception of the helper: nothing catches it, so
  it leaves the function.
\<close>

datatype control = Resolve | Break | Continue | Throw

definition rd_content :: "env \<Rightarrow> pattern option list \<Rightarrow> rd_state \<Rightarrow> json \<Rightarrow> control \<times> rd_state" where
  "rd_content e excluded st content =
     (let st1 = (if \<not> dataStart st then st\<lparr>buffer := buffer st @ to_string e content\<rparr> else st);
          matched = (\<not> dataStart st \<and> buffer_match e (excludedPrefix excluded) (buffer st1));
          st2 = (if matched then st1\<lparr>dataStart := True, buffer := []\<rparr> else st1)
      in if matched \<and> pattern_truthy (excludedPrefix excluded) then (Break, st2)
         else if dataStart st2 \<and> truthy e content
         then
           (case stripRegexPatterns e content excluded of
              None \<Rightarrow> (Throw, st2)
            | Some contentWithoutExcluded \<Rightarrow>
              (Continue, st2\<lparr>data := data st2 @ to_string e contentWithoutExcluded,
                             written := written st2 @ [contentWithoutExcluded]\<rparr>))
         else (Continue, st2))"

definition rd_payload :: "env \<Rightarrow> pattern option list \<Rightarrow> rd_state \<Rightarrow> string \<Rightarrow> control \<times> rd_state" where
  "rd_payload e excluded st payload =
     (if includes_str payload ''[DONE]'' \<or> stopTextStream st
      then (Resolve, st\<lparr>dataStart := False\<rparr>)
      else if startsWith payload ''data:''
      then rd_content e excluded st (parseContent e payload)
      else (Continue, st))"

text \<open>
  The loop over the payloads of a chunk, and how it left the function if it did:
  \<open>Returned\<close> after \<^verbatim>\<open>resolve(data)\<close>, \<open>Thrown\<close> by an exception.
\<close>

datatype way_out = Returned | Thrown

fun rd_payloads ::
  "env \<Rightarrow> pattern option list \<Rightarrow> rd_state \<Rightarrow> string list \<Rightarrow> way_out option \<times> rd_state" where
  "rd_payloads e excluded st [] = (None, st)"
| "rd_payloads e excluded st (payload # payloads) =
     (case rd_payload e excluded st payload of
        (Resolve, st') \<Rightarrow> (Some Returned, st')
      | (Throw, st') \<Rightarrow> (Some Thrown, st')
      | (Break, st') \<Rightarrow> (None, st')
      | (Continue, st') \<Rightarrow> rd_payloads e excluded st' payloads)"

text \<open>
  One run is the sequence of what happens while the function waits: a chunk arrives or
  a key is pressed (the listener runs between two chunks, never inside the processing
  of one), and at last the generator closes or throws. When it throws, or when the
  helper throws, the executor rejects and \<^verbatim>\<open>resolve\<close> is never called: the promise
  stays pending.
\<close>

datatype event = Chunk string | Keypress string

datatype ending = Closes | Throws

text \<open>
  \<open>resolved\<close> is the value the promise resolved with (\<open>None\<close>: pending for ever),
  \<open>sink\<close> the calls of \<^verbatim>\<open>writer\<close>, \<open>unread\<close> the events after the return.
\<close>

record rd_result =
  resolved :: "string option"
  sink :: "json list"
  unread :: "event list"

fun rd_events :: "env \<Rightarrow> pattern option list \<Rightarrow> rd_state \<Rightarrow> event list \<Rightarrow> ending \<Rightarrow> rd_result" where
  "rd_events e excluded st [] Closes = \<lparr>resolved = Some (data st), sink = written st, unread = []\<rparr>"
| "rd_events e excluded st [] Throws = \<lparr>resolved = None, sink = written st, unread = []\<rparr>"
| "rd_events e excluded st (Keypress name # evs) fin =
     rd_events e excluded (on_keypress st name) evs fin"
| "rd_events e excluded st (Chunk chunk # evs) fin =
     (case rd_payloads e excluded st (split_nn chunk) of
        (Some Returned, st') \<Rightarrow> \<lparr>resolved = Some (data st'), sink = written st', unread = evs\<rparr>
      | (Some Thrown, st') \<Rightarrow> \<lparr>resolved = None, sink = written st', unread = evs\<rparr>
      | (None, st') \<Rightarrow> rd_events e excluded st' evs fin)"

text \<open>
  The terminal: whether standard input is in raw mode, the readline interfaces that
  were created and not closed, and the listeners of \<^verbatim>\<open>keypress\<close> on standard input.
\<close>

record terminal =
  rawMode :: bool
  openInterfaces :: nat
  keypressListeners :: nat

text \<open>
  What the function does to the terminal: \<^verbatim>\<open>readline.createInterface\<close>,
  \<^verbatim>\<open>setRawMode(true)\<close> and \<^verbatim>\<open>process.stdin.on('keypress', ...)\<close> before the loop;
  no statement after them touches the terminal.
\<close>

definition rd_setup :: "terminal \<Rightarrow> terminal" where
  "rd_setup t = t\<lparr>openInterfaces := Suc (openInterfaces t), rawMode := True,
                  keypressListeners := Suc (keypressListeners t)\<rparr>"

definition readData ::
  "env \<Rightarrow> pattern option list \<Rightarrow> terminal \<Rightarrow> event list \<Rightarrow> ending \<Rightarrow> rd_result \<times> terminal" where
  "readData e excluded t evs fin = (rd_events e excluded rd_init evs fin, rd_setup t)"

section \<open>generateCompletion\<close>

text \<open>A status code in a template literal: the decimal digits of the number.\<close>

definition digit :: "nat \<Rightarrow> char" where
  "digit d = ''0123456789'' ! d"

function dec :: "nat \<Rightarrow> string" where
  "dec k = (if k < 10 then [digit k] else dec (k div 10) @ [digit (k mod 10)])"
  by pat_completeness auto
termination
  by (relation "measure id") auto

declare dec.simps [simp del]

text \<open>\<^verbatim>\<open>ChatCompletionRequestMessage\<close> and the argument \<^verbatim>\<open>prompt\<close>.\<close>

record message =
  role :: string
  content :: string

datatype prompt = Text string | Messages "message list"

text \<open>The request handed to \<^verbatim>\<open>createChatCompletion\<close>. The count is an integer.\<close>

record completion_request =
  model :: string
  messages :: "message list"
  n :: int
  stream :: bool

text \<open>
  The first argument of the call. \<open>number\<close> is \<open>None\<close> when the caller leaves it
  out (the default \<open>1\<close> applies); \<^verbatim>\<open>model || 'gpt-4o-mini'\<close> replaces a missing or
  empty name.
\<close>

definition request_of :: "prompt \<Rightarrow> int option \<Rightarrow> string option \<Rightarrow> completion_request" where
  "request_of p number m =
     \<lparr>model = (case m of None \<Rightarrow> ''gpt-4o-mini'' | Some s \<Rightarrow> if s = [] then ''gpt-4o-mini'' else s),
      messages = (case p of Messages ms \<Rightarrow> ms | Text t \<Rightarrow> [\<lparr>role = ''user'', content = t\<rparr>]),
      n = min (case number of None \<Rightarrow> 1 | Some k \<Rightarrow> k) 10,
      stream = True\<rparr>"

text \<open>
  The caught error, read as an \<^verbatim>\<open>AxiosError\<close>. Every field may be \<^verbatim>\<open>undefined\<close>.
  The data of a response is an \<^verbatim>\<open>IncomingMessage\<close>, given by the text
  \<^verbatim>\<open>streamToString\<close> reads from it, or another value. \<open>error_hostname\<close> and
  \<open>error_syscall\<close> are the properties \<^verbatim>\<open>hostname\<close> and \<^verbatim>\<open>syscall\<close> of the error
  itself, where the platform records the host of a failed lookup; the \<^verbatim>\<open>catch\<close> block
  reads the properties of these names of \<^verbatim>\<open>error.request\<close>.
\<close>

record client_request =
  hostname :: "string option"
  syscall :: "string option"

datatype response_body = IncomingMessage string | Plain json

record http_response =
  status :: nat
  response_data :: "response_body option"

record axios_error =
  code :: "string option"
  error_hostname :: "string option"
  error_syscall :: "string option"
  request :: "client_request option"
  response :: "http_response option"

text \<open>
  What the function throws: a \<^verbatim>\<open>KnownError\<close> with its message, the caught error
  itself, or the TypeError of \<^verbatim>\<open>error.request.hostname\<close> when the error has no request.
\<close>

datatype failure = KnownError string | Rethrown axios_error | TypeError

text \<open>A property that may be \<^verbatim>\<open>undefined\<close>, in a template literal.\<close>

definition render :: "string option \<Rightarrow> string" where
  "render v = (case v of None \<Rightarrow> ''undefined'' | Some s \<Rightarrow> s)"

text \<open>
  \<^verbatim>\<open>message\<close> after the block that reads the body: the body of a stream is read in
  full and replaced by its JSON value when it parses; \<open>None\<close> is \<^verbatim>\<open>undefined\<close>.
\<close>

definition message_of :: "env \<Rightarrow> http_response option \<Rightarrow> json option" where
  "message_of e r =
     (case r of
        None \<Rightarrow> None
      | Some resp \<Rightarrow>
        (case response_data resp of
           None \<Rightarrow> None
         | Some (Plain v) \<Rightarrow> Some v
         | Some (IncomingMessage body) \<Rightarrow>
           (case json_parse e body of Inr v \<Rightarrow> Some v | Inl err \<Rightarrow> Some (JStr body))))"

definition message_truthy :: "env \<Rightarrow> json option \<Rightarrow> bool" where
  "message_truthy e m = (case m of None \<Rightarrow> False | Some v \<Rightarrow> truthy e v)"

text \<open>
  \<^verbatim>\<open>message && JSON.stringify(message, null, 2)\<close>, as the concatenation renders it.
\<close>

definition messageString :: "env \<Rightarrow> json option \<Rightarrow> string" where
  "messageString e m =
     (case m of
        None \<Rightarrow> ''undefined''
      | Some v \<Rightarrow> if truthy e v then json_stringify e v else to_string e v)"

text \<open>The raw segments of the two templates of the error messages.\<close>

definition quota_template :: "string list" where
  "quota_template =
    [[CHR 0x0A] @ ''        Request to OpenAI failed with status 429. This is due '' @
      ''to incorrect billing setup or excessive quota usage. Please '' @
      ''follow this guide to fix it: '' @
      ''https://help.openai.com/en/articles/6891831-error-code-429-you-e'' @
      ''xceeded-your-current-quota-please-check-your-plan-and-billing-de'' @ ''tails'' @
      [CHR 0x0A, CHR 0x0A] @ ''        You can activate billing here: '' @
      ''https://platform.openai.com/account/billing/overview . Make '' @
      ''sure to add a payment method if not under an active grant from '' @ ''OpenAI.'' @
      [CHR 0x0A, CHR 0x0A] @ ''        Full message from OpenAI:'' @ [CHR 0x0A] @ ''      '']"

definition status_template :: "string list" where
  "status_template =
    [[CHR 0x0A] @ ''        Request to OpenAI failed with status '',
     '':'' @ [CHR 0x0A] @ ''      '']"

text \<open>The \<^verbatim>\<open>catch\<close> block.\<close>

definition on_error :: "env \<Rightarrow> axios_error \<Rightarrow> failure" where
  "on_error e err =
     (if code err = Some ''ENOTFOUND''
      then
        (case request err of
           None \<Rightarrow> TypeError
         | Some req \<Rightarrow>
           KnownError (''Error connecting to '' @ render (hostname req) @ '' ('' @
             render (syscall req) @ ''). Are you connected to the internet?''))
      else
        (let message = message_of e (response err);
             ms = messageString e message
         in case response err of
              None \<Rightarrow> Rethrown err
            | Some resp \<Rightarrow>
              if status resp = 429
              then KnownError (dedent e quota_template [] @ [CHR 0x0A, CHR 0x0A] @ ms @ [CHR 0x0A])
              else if message_truthy e message
              then KnownError (dedent e status_template [dec (status resp)] @
                     [CHR 0x0A, CHR 0x0A] @ ms @ [CHR 0x0A])
              else Rethrown err))"

text \<open>
  \<open>getOpenAi key apiEndpoint\<close> is \<^verbatim>\<open>createChatCompletion\<close> of the client for the
  key and the endpoint: \<open>Inl\<close> is the error it throws, \<open>Inr\<close> the chunks of the
  response.
\<close>

definition generateCompletion ::
  "env \<Rightarrow> (string \<Rightarrow> string \<Rightarrow> completion_request \<Rightarrow> axios_error + string list) \<Rightarrow>
   prompt \<Rightarrow> int option \<Rightarrow> string \<Rightarrow> string option \<Rightarrow> string \<Rightarrow> failure + string list" where
  "generateCompletion e getOpenAi p number key m apiEndpoint =
     (case getOpenAi key apiEndpoint (request_of p number m) of
        Inr completion \<Rightarrow> Inr completion
      | Inl err \<Rightarrow> Inl (on_error e err))"

section \<open>extractScriptAndExplanation\<close>

text \<open>
  The expression \<^verbatim>\<open>/```(?:bash|sh)?\s*\n([\s\S]*?)\n```/i\<close>, searched by a backtracking
  matcher in the order of the engine. \<open>fence\<close> is the three backquotes, \<open>closing\<close> the
  line feed and the fence that end a block.
\<close>

definition fence :: string where
  "fence = [CHR 0x60, CHR 0x60, CHR 0x60]"

definition closing :: string where
  "closing = CHR 0x0A # fence"

text \<open>
  The flag \<^verbatim>\<open>i\<close>: a letter of the expression matches itself and its capital. The
  letters of \<^verbatim>\<open>bash\<close> and \<^verbatim>\<open>sh\<close> have no other partner among the code units.
\<close>

definition lower :: "char \<Rightarrow> char" where
  "lower c =
     (if of_char CHR ''A'' \<le> (of_char c :: nat) \<and> (of_char c :: nat) \<le> of_char CHR ''Z''
      then char_of (of_char c + (32 :: nat)) else c)"

definition starts_ci :: "string \<Rightarrow> string \<Rightarrow> bool" where
  "starts_ci s tag = startsWith (map lower (take (length tag) s)) tag"

text \<open>
  \<^verbatim>\<open>([\s\S]*?)\n```\<close>: the lazy group takes the fewest characters, so the match ends
  at the first closing. The result is the group and what follows the match.
\<close>

fun find_closing :: "string \<Rightarrow> (string \<times> string) option" where
  "find_closing [] = None"
| "find_closing (c # cs) =
     (if startsWith (c # cs) closing then Some ([], drop (length closing) (c # cs))
      else (case find_closing cs of
              None \<Rightarrow> None
            | Some (g, rest) \<Rightarrow> Some (c # g, rest)))"

text \<open>
  \<^verbatim>\<open>\s*\n\<close> and the rest, with \<open>k\<close> characters given to the greedy \<^verbatim>\<open>\s*\<close>: the
  longest run first, then one character less at each failure.
\<close>

definition after_space :: "nat \<Rightarrow> string \<Rightarrow> (string \<times> string) option" where
  "after_space k s =
     (if startsWith (drop k s) [CHR 0x0A] then find_closing (drop (Suc k) s) else None)"

primrec try_space :: "nat \<Rightarrow> string \<Rightarrow> (string \<times> string) option" where
  "try_space 0 s = after_space 0 s"
| "try_space (Suc k) s =
     (case after_space (Suc k) s of Some m \<Rightarrow> Some m | None \<Rightarrow> try_space k s)"

definition after_tag :: "string \<Rightarrow> (string \<times> string) option" where
  "after_tag s = try_space (length (takeWhile is_space s)) s"

text \<open>
  \<^verbatim>\<open>(?:bash|sh)?\<close>: the alternatives in their order, then the empty tag. \<open>after_ci\<close>
  is the attempt with one alternative.
\<close>

definition after_ci :: "string \<Rightarrow> string \<Rightarrow> (string \<times> string) option" where
  "after_ci tag s = (if starts_ci s tag then after_tag (drop (length tag) s) else None)"

definition try_tags :: "string \<Rightarrow> (string \<times> string) option" where
  "try_tags s =
     (case after_ci ''bash'' s of
        Some m \<Rightarrow> Some m
      | None \<Rightarrow>
        (case after_ci ''sh'' s of
           Some m \<Rightarrow> Some m
         | None \<Rightarrow> after_tag s))"

text \<open>A match that starts at the first character of the string.\<close>

definition match_here :: "string \<Rightarrow> (string \<times> string) option" where
  "match_here s = (if startsWith s fence then try_tags (drop (length fence) s) else None)"

text \<open>
  The leftmost match: the text before it (the first argument holds it reversed), the
  group and the text after it.
\<close>

fun search_from :: "string \<Rightarrow> string \<Rightarrow> (string \<times> string \<times> string) option" where
  "search_from acc [] = None"
| "search_from acc (c # cs) =
     (case match_here (c # cs) of
        Some (g, rest) \<Rightarrow> Some (rev acc, g, rest)
      | None \<Rightarrow> search_from (c # acc) cs)"

definition codeBlockRegex :: "string \<Rightarrow> (string \<times> string \<times> string) option" where
  "codeBlockRegex s = search_from [] s"

text \<open>
  The result is the pair of \<^verbatim>\<open>script\<close> and \<^verbatim>\<open>explanation\<close>. \<^verbatim>\<open>replace\<close> with the
  same expression removes the match that \<^verbatim>\<open>match\<close> found.
\<close>

definition extractScriptAndExplanation :: "string \<Rightarrow> string \<times> string" where
  "extractScriptAndExplanation fullResponse =
     (case codeBlockRegex fullResponse of
        Some (before, g, rest) \<Rightarrow>
          if g \<noteq> [] then (trim g, trim (before @ rest)) else ([], trim fullResponse)
      | None \<Rightarrow> ([], trim fullResponse))"

section \<open>The prompts\<close>

text \<open>
  The environment of the process, as far as the module looks at it: the name of the
  operating system (\<^verbatim>\<open>os.name()\<close> of the module the function loads), the current
  language of \<^verbatim>\<open>i18n\<close>, and the shell that \<^verbatim>\<open>detectShell\<close> finds. The record is
  open: an environment holds more than these three strings, and the properties below
  are stated for every extension of it.
\<close>

record world =
  os_name :: string
  language :: string
  shell :: string

text \<open>
  The detections the functions of the module make: \<^verbatim>\<open>detectShell()\<close>, \<^verbatim>\<open>os.name()\<close>
  in \<^verbatim>\<open>getOperationSystemDetails()\<close>, and \<^verbatim>\<open>i18n.getCurrentLanguagenName()\<close>.
\<close>

datatype detection = DetectShell | OperationSystemDetails | CurrentLanguageName

text \<open>
  A function that builds a value and may make detections on the way: it is done with
  a value, or it makes a detection and goes on with the string it gets. \<open>and_then\<close>
  is the sequence of two such computations.
\<close>

datatype 'a builder = Done 'a | Ask detection "string \<Rightarrow> 'a builder"

primrec and_then :: "'a builder \<Rightarrow> ('a \<Rightarrow> 'b builder) \<Rightarrow> 'b builder" where
  "and_then (Done a) f = f a"
| "and_then (Ask q k) f = Ask q (\<lambda>s. and_then (k s) f)"

text \<open>What a detection finds in an environment.\<close>

fun answer :: "'w world_scheme \<Rightarrow> detection \<Rightarrow> string" where
  "answer w DetectShell = shell w"
| "answer w OperationSystemDetails = os_name w"
| "answer w CurrentLanguageName = language w"

text \<open>
  A call in the environment \<open>w\<close>: the value built and the detections that were made,
  in order.
\<close>

primrec run :: "'w world_scheme \<Rightarrow> 'a builder \<Rightarrow> 'a \<times> detection list" where
  "run w (Done a) = (a, [])"
| "run w (Ask q k) = (case run w (k (answer w q)) of (a, qs) \<Rightarrow> (a, q # qs))"

definition explainScript_template :: "string list" where
  "explainScript_template =
    [[CHR 0x0A] @ ''  Please provide a clear, concise description of the script, '' @
      ''using minimal words. Outline the steps in a list format.'' @ [CHR 0x0A]]"

definition shell_template :: "string list" where
  "shell_template =
    [[CHR 0x0A] @ ''      The target shell is '',
     [CHR 0x0A] @ ''  '']"

definition explanation_template :: "string list" where
  "explanation_template =
    [[CHR 0x0A] @ ''    '',
     '' Please reply in '',
     [CHR 0x0A, CHR 0x0A] @ ''    The script: '',
     [CHR 0x0A] @ ''  '']"

definition generation_template :: "string list" where
  "generation_template =
    [[CHR 0x0A] @ ''    Reply with two parts:'' @ [CHR 0x0A] @
      ''    1. The command inside a markdown code block (format: '' @
      [CHR 0x5C, CHR 0x60, CHR 0x5C, CHR 0x60, CHR 0x5C, CHR 0x60] @ ''bash'' @
      [CHR 0x5C, CHR 0x5C] @ ''nyour command here'' @ [CHR 0x5C, CHR 0x5C] @ ''n'' @
      [CHR 0x5C, CHR 0x60, CHR 0x5C, CHR 0x60, CHR 0x5C, CHR 0x60] @ '')'' @ [CHR 0x0A] @
      ''    2. A brief explanation of what the command does'' @ [CHR 0x0A, CHR 0x0A] @
      ''    Example:'' @ [CHR 0x0A] @ ''    '' @
      [CHR 0x5C, CHR 0x60, CHR 0x5C, CHR 0x60, CHR 0x5C, CHR 0x60] @ ''bash'' @ [CHR 0x0A] @
      ''    your command here'' @ [CHR 0x0A] @ ''    '' @
      [CHR 0x5C, CHR 0x60, CHR 0x5C, CHR 0x60, CHR 0x5C, CHR 0x60, CHR 0x0A] @
      ''    Explanation text here.'' @ [CHR 0x0A, CHR 0x0A] @ ''    '' @ [CHR 0x2A, CHR 0x2A] @
      ''IMPORTANT'' @ [CHR 0x2A, CHR 0x2A] @
      '': Use macOS-compatible syntax (prefer short options like '' @ [CHR 0x5C, CHR 0x60] @
      ''-r'' @ [CHR 0x5C, CHR 0x60] @ '' over '' @ [CHR 0x5C, CHR 0x60] @ ''--reverse'' @
      [CHR 0x5C, CHR 0x60] @ ''). Mention in explanation if command differs between '' @
      ''macOS/Linux (if same, don'' @ [CHR 0x27] @ ''t mention).'' @ [CHR 0x0A, CHR 0x0A] @
      ''    Make sure the command runs on '',
     ''.'' @ [CHR 0x0A, CHR 0x0A] @ ''    '' @ [CHR 0x2A, CHR 0x2A] @ ''Language'' @
      [CHR 0x2A, CHR 0x2A] @ '': Explain in '',
     ''.'' @ [CHR 0x0A] @ ''  '']"

definition full_template :: "string list" where
  "full_template =
    [[CHR 0x0A] @ ''    Create a single line command that one can enter in a '' @
      ''terminal and run, based on what is specified in the prompt.'' @ [CHR 0x0A, CHR 0x0A] @
      ''    '',
     [CHR 0x0A, CHR 0x0A] @ ''    '',
     [CHR 0x0A, CHR 0x0A] @ ''    '',
     [CHR 0x0A, CHR 0x0A] @ ''    The prompt is: '',
     [CHR 0x0A] @ ''  '']"

definition revision_template :: "string list" where
  "revision_template =
    [[CHR 0x0A] @ ''    Update the following script based on what is asked in the '' @
      ''following prompt.'' @ [CHR 0x0A, CHR 0x0A] @ ''    The script: '',
     [CHR 0x0A, CHR 0x0A] @ ''    The prompt: '',
     [CHR 0x0A, CHR 0x0A] @ ''    '',
     [CHR 0x0A] @ ''  '']"

text \<open>
  The functions of the module, statement by statement, and its constants, computed
  once when it is loaded: \<open>w0\<close> is the environment at that moment, in which
  \<^verbatim>\<open>getShellDetails()\<close> is called. The values of a template are evaluated from left to
  right. The parameters of the source are the script and the prompt; \<open>e\<close> and \<open>w0\<close>
  stand for the packages and for the constants of the module.
\<close>

definition explainInSecondRequest :: bool where
  "explainInSecondRequest = True"

definition explainScript :: "env \<Rightarrow> string" where
  "explainScript e = dedent e explainScript_template []"

definition detectShell :: "string builder" where
  "detectShell = Ask DetectShell Done"

definition getShellDetails :: "env \<Rightarrow> string builder" where
  "getShellDetails e =
     and_then detectShell (\<lambda>shellDetails. Done (dedent e shell_template [shellDetails]))"

definition shellDetails :: "env \<Rightarrow> 'w world_scheme \<Rightarrow> string" where
  "shellDetails e w0 = fst (run w0 (getShellDetails e))"

definition getOperationSystemDetails :: "string builder" where
  "getOperationSystemDetails = Ask OperationSystemDetails Done"

definition getCurrentLanguagenName :: "string builder" where
  "getCurrentLanguagenName = Ask CurrentLanguageName Done"

definition getExplanationPrompt :: "env \<Rightarrow> string \<Rightarrow> string builder" where
  "getExplanationPrompt e script =
     and_then getCurrentLanguagenName (\<lambda>lang.
       Done (dedent e explanation_template [explainScript e, lang, script]))"

definition getGenerationDetails :: "env \<Rightarrow> string builder" where
  "getGenerationDetails e =
     and_then getOperationSystemDetails (\<lambda>os.
     and_then getCurrentLanguagenName (\<lambda>lang.
       Done (dedent e generation_template [os, lang])))"

definition getFullPrompt :: "env \<Rightarrow> 'w world_scheme \<Rightarrow> string \<Rightarrow> string builder" where
  "getFullPrompt e w0 p =
     and_then (getGenerationDetails e) (\<lambda>details.
       Done (dedent e full_template
         [shellDetails e w0, details, if explainInSecondRequest then [] else explainScript e, p]))"

definition getRevisionPrompt :: "env \<Rightarrow> string \<Rightarrow> string \<Rightarrow> string builder" where
  "getRevisionPrompt e p script =
     and_then (getGenerationDetails e) (\<lambda>details.
       Done (dedent e revision_template [script, p, details]))"

section \<open>Notions of the properties\<close>

text \<open>
  A chunk with a payload that holds \<^verbatim>\<open>[DONE]\<close>; the payloads of a stream before the
  first such payload; the chunks after the chunk it arrives in.
\<close>

definition has_done :: "string \<Rightarrow> bool" where
  "has_done chunk = list_ex is_done (split_nn chunk)"

definition before_done :: "string list \<Rightarrow> string list" where
  "before_done chunks = takeWhile (\<lambda>p. \<not> is_done p) (concat (map split_nn chunks))"

definition after_done :: "string list \<Rightarrow> string list" where
  "after_done chunks = tl (dropWhile (\<lambda>c. \<not> has_done c) chunks)"

text \<open>
  The variables of \<open>readData\<close> once the events \<open>evs\<close> have been handled, when the
  function has not been left by then (\<open>None\<close> when it has).
\<close>

fun rd_reach :: "env \<Rightarrow> pattern option list \<Rightarrow> rd_state \<Rightarrow> event list \<Rightarrow> rd_state option" where
  "rd_reach e excluded st [] = Some st"
| "rd_reach e excluded st (Keypress name # evs) = rd_reach e excluded (on_keypress st name) evs"
| "rd_reach e excluded st (Chunk chunk # evs) =
     (case rd_payloads e excluded st (split_nn chunk) of
        (Some out, st') \<Rightarrow> None
      | (None, st') \<Rightarrow> rd_reach e excluded st' evs)"

text \<open>The chunks among the events of a run.\<close>

fun chunks_of :: "event list \<Rightarrow> string list" where
  "chunks_of [] = []"
| "chunks_of (Chunk c # evs) = c # chunks_of evs"
| "chunks_of (Keypress name # evs) = chunks_of evs"


definition helper_returns :: "env \<Rightarrow> pattern option list \<Rightarrow> string list \<Rightarrow> bool" where
  "helper_returns e excluded payloads =
     list_all (\<lambda>c. stripRegexPatterns e c excluded \<noteq> None) (filter (truthy e) (deltas e payloads))"


text \<open>
  No buffer on the way matches the pattern \<open>p\<close>: the buffer holds \<open>buf\<close> and the
  deltas \<open>ds\<close> are appended to it one after the other.
\<close>

fun never_match :: "env \<Rightarrow> pattern option \<Rightarrow> string \<Rightarrow> string list \<Rightarrow> bool" where
  "never_match e p buf [] = True"
| "never_match e p buf (d # ds) =
     (\<not> buffer_match e p (buf @ d) \<and> never_match e p (buf @ d) ds)"

text \<open>The failure is a \<^verbatim>\<open>KnownError\<close> whose message contains \<open>x\<close>.\<close>

definition known_with :: "failure \<Rightarrow> string \<Rightarrow> bool" where
  "known_with f x = (case f of KnownError msg \<Rightarrow> includes_str msg x | _ \<Rightarrow> False)"

text \<open>
  A fenced block at the start of a string: the fence, a tag \<^verbatim>\<open>bash\<close> or \<^verbatim>\<open>sh\<close> in
  any case of the letters or no tag, white space, a line feed, an interior \<open>g\<close>, and a
  closing.
\<close>

definition tag_ok :: "string \<Rightarrow> bool" where
  "tag_ok tag = (map lower tag = ''bash'' \<or> map lower tag = ''sh'' \<or> tag = [])"

definition block_at :: "string \<Rightarrow> bool" where
  "block_at s =
     (\<exists>tag ws g rest. tag_ok tag \<and> list_all is_space ws \<and>
        s = fence @ tag @ ws @ CHR 0x0A # g @ closing @ rest)"

section \<open>Example data\<close>

text \<open>
  The frame of the wire format that carries the content \<open>c\<close>,
  \<^verbatim>\<open>{"choices":[{"delta":{"content":"c"}}]}\<close>, for a content of letters, digits, spaces,
  full stops, square brackets and backquotes (no character that JSON escapes), and the
  value it parses to.
\<close>

definition frame_open :: string where
  "frame_open = ''{'' @ [CHR 0x22] @ ''choices'' @ [CHR 0x22] @ '':[{'' @ [CHR 0x22] @ ''delta'' @
     [CHR 0x22] @ '':{'' @ [CHR 0x22] @ ''content'' @ [CHR 0x22] @ '':'' @ [CHR 0x22]"

definition frame_close :: string where
  "frame_close = [CHR 0x22] @ ''}}]}''"

definition delta_text :: "string \<Rightarrow> string" where
  "delta_text c = frame_open @ c @ frame_close"

definition delta_json :: "string \<Rightarrow> json" where
  "delta_json c = JObj [(''choices'', JArr [JObj [(''delta'', JObj [(''content'', JStr c)])]])]"

definition plain_char :: "char \<Rightarrow> bool" where
  "plain_char c = (c = CHR 0x20 \<or> c = CHR 0x60 \<or> c = CHR ''.'' \<or> c = CHR ''['' \<or> c = CHR '']'' \<or>
     (of_char CHR ''0'' \<le> (of_char c :: nat) \<and> (of_char c :: nat) \<le> of_char CHR ''9'') \<or>
     (of_char CHR ''A'' \<le> (of_char c :: nat) \<and> (of_char c :: nat) \<le> of_char CHR ''Z'') \<or>
     (of_char CHR ''a'' \<le> (of_char c :: nat) \<and> (of_char c :: nat) \<le> of_char CHR ''z''))"

text \<open>
  A parser that agrees with \<^verbatim>\<open>JSON.parse\<close> on the frames above and on \<^verbatim>\<open>null\<close>, and
  rejects the texts of the examples that are not JSON.
\<close>

definition demo_parse :: "string \<Rightarrow> string + json" where
  "demo_parse s =
     (let k = length s - length frame_open - length frame_close;
          c = take k (drop (length frame_open) s)
      in if s = delta_text c \<and> list_all plain_char c then Inr (delta_json c)
         else if s = ''null'' then Inr JNull
         else Inl ''SyntaxError'')"

text \<open>
  An environment for the examples: string patterns of plain characters are found
  where they occur, \<open>stripRegexPatterns\<close> has nothing to remove from the contents of
  the examples, \<open>dedent\<close> joins the segments and the values in order.
\<close>

fun interleave :: "string list \<Rightarrow> string list \<Rightarrow> string" where
  "interleave [] vs = []"
| "interleave (s # ss) [] = s @ interleave ss []"
| "interleave (s # ss) (v # vs) = s @ v @ interleave ss vs"

definition demo_env :: env where
  "demo_env =
     \<lparr>json_parse = demo_parse,
      json_stringify = (\<lambda>v. case v of JStr s \<Rightarrow> [CHR 0x22] @ s @ [CHR 0x22] | _ \<Rightarrow> ''{}''),
      js_string = (\<lambda>v. ''[object Object]''),
      num_truthy = (\<lambda>x. True),
      null_read_error = ''TypeError'',
      match_found = (\<lambda>p s. case p of Str x \<Rightarrow> includes_str s x | RegExp r \<Rightarrow> False),
      stripRegexPatterns = (\<lambda>c excluded. Some c),
      dedent = interleave\<rparr>"

text \<open>A payload of the event stream with the content \<open>c\<close>.\<close>

definition data_payload :: "string \<Rightarrow> string" where
  "data_payload c = ''data: '' @ delta_text c"

text \<open>A stream of three chunks; the second one brings \<^verbatim>\<open>[DONE]\<close>.\<close>

definition demo_chunks :: "string list" where
  "demo_chunks =
     [data_payload ''ls'' @ [CHR 0x0A, CHR 0x0A] @ ''event: ping'' @ [CHR 0x0A, CHR 0x0A] @
        data_payload ''pwd'',
      ''data: [DONE]'' @ [CHR 0x0A, CHR 0x0A] @ data_payload ''x'',
      data_payload ''y'']"

text \<open>
  The chunks of a stream before its sentinel, one payload each; the second delta
  mentions \<^verbatim>\<open>[DONE]\<close>.
\<close>

definition done_in_delta :: "string list" where
  "done_in_delta =
     [data_payload ''ls'', data_payload ''say [DONE] now'', data_payload ''x'', data_payload ''y'']"

text \<open>A terminal in its normal mode.\<close>

definition t0 :: terminal where
  "t0 = \<lparr>rawMode = False, openInterfaces = 0, keypressListeners = 0\<rparr>"

text \<open>Runs of the examples.\<close>

definition demo_run :: "event list" where
  "demo_run = [Chunk (data_payload ''pwd''), Chunk ''data: [DONE]'']"

definition demo_fenced :: "event list" where
  "demo_fenced =
     [Chunk (data_payload ''ls'' @ [CHR 0x0A, CHR 0x0A]), Keypress ''a'',
      Chunk (data_payload ''pwd'' @ [CHR 0x0A, CHR 0x0A] @ ''data: [DONE]'' @ [CHR 0x0A, CHR 0x0A])]"


text \<open>
  Errors of the client. The request it attaches to an error is the \<^verbatim>\<open>ClientRequest\<close>
  of the call, an object without a property \<^verbatim>\<open>hostname\<close> or \<^verbatim>\<open>syscall\<close>.
  \<open>dns_failure host\<close> is the error of a failed lookup of \<open>host\<close>: the platform's error
  of \<^verbatim>\<open>getaddrinfo\<close>, which names the host, with the request attached. The others are a
  response 429, a response 500 (the bodies are not JSON, so they stay text), and a
  reset connection without a response.
\<close>

definition demo_request :: client_request where
  "demo_request = \<lparr>hostname = None, syscall = None\<rparr>"

definition dns_failure :: "string \<Rightarrow> axios_error" where
  "dns_failure host = \<lparr>code = Some ''ENOTFOUND'', error_hostname = Some host,
     error_syscall = Some ''getaddrinfo'', request = Some demo_request, response = None\<rparr>"

definition err_quota :: axios_error where
  "err_quota = \<lparr>code = None, error_hostname = None, error_syscall = None,
     request = Some demo_request,
     response = Some \<lparr>status = 429, response_data = Some (IncomingMessage ''quota exceeded'')\<rparr>\<rparr>"

definition err_server :: axios_error where
  "err_server = \<lparr>code = None, error_hostname = None, error_syscall = None,
     request = Some demo_request,
     response = Some \<lparr>status = 500, response_data = Some (IncomingMessage ''server error'')\<rparr>\<rparr>"

definition err_reset :: axios_error where
  "err_reset = \<lparr>code = Some ''ECONNRESET'', error_hostname = None,
     error_syscall = Some ''read'', request = Some demo_request, response = None\<rparr>"

text \<open>The message for \<open>err_quota\<close> in the example environment.\<close>

definition quota_message :: string where
  "quota_message = interleave quota_template [] @ [CHR 0x0A, CHR 0x0A, CHR 0x22] @ ''quota exceeded'' @
     [CHR 0x22, CHR 0x0A]"

text \<open>
  An environment of the prompt builders, and one with a working directory besides.
\<close>

definition demo_world :: world where
  "demo_world = \<lparr>os_name = ''Mac OS X'', language = ''English'', shell = ''zsh''\<rparr>"

record session = world +
  cwd :: string

definition demo_session :: "string \<Rightarrow> session" where
  "demo_session dir =
     \<lparr>os_name = ''Mac OS X'', language = ''English'', shell = ''zsh'', cwd = dir\<rparr>"

text \<open>An answer with one block, and a block with nothing inside.\<close>

definition demo_answer :: string where
  "demo_answer = fence @ ''bash'' @ [CHR 0x0A] @ ''ECHO 1'' @ closing @ [CHR 0x0A] @ ''Prints 1.''"

definition empty_block :: string where
  "empty_block = fence @ [CHR 0x0A] @ closing"

section \<open>Lists and strings\<close>

lemma takeWhile_first:
  "\<forall>x\<in>set xs. P x \<Longrightarrow> \<not> P d \<Longrightarrow> takeWhile P (xs @ d # ys) = xs"
  by (induction xs) auto

lemma dropWhile_first:
  "\<forall>x\<in>set xs. P x \<Longrightarrow> \<not> P d \<Longrightarrow> dropWhile P (xs @ d # ys) = d # ys"
  by (induction xs) auto

lemma startsWith_append: "startsWith (p @ s) p"
  by (induction p) auto

lemma startsWith_iff: "startsWith s p \<longleftrightarrow> (\<exists>r. s = p @ r)"
  by (induction s p rule: startsWith.induct) auto

lemma includes_str_Nil: "includes_str s []"
  by (cases s) auto

lemma includes_str_prefix: "includes_str (b @ c) b"
proof (cases b)
  case Nil
  then show ?thesis by (simp add: includes_str_Nil)
next
  case (Cons y ys)
  have "startsWith ((y # ys) @ c) (y # ys)" by (rule startsWith_append)
  with Cons show ?thesis by simp
qed

lemma includes_str_append: "includes_str (a @ b @ c) b"
proof (induction a)
  case Nil
  show ?case by (simp add: includes_str_prefix)
next
  case (Cons x a)
  then show ?case by simp
qed

lemma includes_str_iff: "includes_str s sub \<longleftrightarrow> (\<exists>a c. s = a @ sub @ c)"
proof
  show "includes_str s sub \<Longrightarrow> \<exists>a c. s = a @ sub @ c"
  proof (induction s)
    case Nil
    then show ?case by simp
  next
    case (Cons x s)
    show ?case
    proof (cases "startsWith (x # s) sub")
      case True
      then obtain r where "x # s = sub @ r" by (auto simp: startsWith_iff)
      then have "x # s = [] @ sub @ r" by simp
      then show ?thesis by blast
    next
      case False
      with Cons obtain a c where "s = a @ sub @ c" by auto
      then have "x # s = (x # a) @ sub @ c" by simp
      then show ?thesis by blast
    qed
  qed
next
  show "\<exists>a c. s = a @ sub @ c \<Longrightarrow> includes_str s sub"
    by (auto simp: includes_str_append)
qed

section \<open>readFullResponse returns the deltas before the sentinel\<close>

lemma deltas_append: "deltas e (ps @ qs) = deltas e ps @ deltas e qs"
  by (simp add: deltas_def)

lemma rfr_payloads_no_done:
  "\<forall>p\<in>set ps. \<not> is_done p \<Longrightarrow> rfr_payloads e acc ps = Inr (acc @ concat (texts e (deltas e ps)))"
  by (induction ps arbitrary: acc) (auto simp: deltas_def is_done_def)

lemma rfr_payloads_done:
  "\<forall>p\<in>set ps1. \<not> is_done p \<Longrightarrow> is_done d \<Longrightarrow>
     rfr_payloads e acc (ps1 @ d # ps2) = Inl (acc @ concat (texts e (deltas e ps1)))"
  by (induction ps1 arbitrary: acc) (auto simp: deltas_def is_done_def)

lemma rfr_chunks_no_done:
  "\<forall>c\<in>set pre. \<not> has_done c \<Longrightarrow>
     rfr_chunks e acc (pre @ rest) =
       rfr_chunks e (acc @ concat (texts e (deltas e (concat (map split_nn pre))))) rest"
proof (induction pre arbitrary: acc)
  case Nil
  then show ?case by (simp add: deltas_def)
next
  case (Cons c pre)
  then have "\<forall>p\<in>set (split_nn c). \<not> is_done p"
    by (simp add: has_done_def list_ex_iff)
  then have "rfr_payloads e acc (split_nn c) = Inr (acc @ concat (texts e (deltas e (split_nn c))))"
    by (rule rfr_payloads_no_done)
  with Cons show ?case by (simp add: deltas_append)
qed

text \<open>
  The run in full: the chunks \<open>pre\<close> bring no sentinel, the next chunk brings the
  payloads \<open>ps1\<close>, then the sentinel \<open>d\<close>. Neither the payloads \<open>ps2\<close> after the
  sentinel nor the chunks \<open>post\<close> are looked at, and \<open>post\<close> is left in the generator.
\<close>

lemma readFullResponse_split:
  assumes pre: "\<forall>c\<in>set pre. \<not> has_done c"
    and ch: "split_nn chunk = ps1 @ d # ps2"
    and ps1: "\<forall>p\<in>set ps1. \<not> is_done p"
    and d: "is_done d"
  shows "readFullResponse e (pre @ chunk # post) =
           (concat (texts e (deltas e (concat (map split_nn pre) @ ps1))), post)"
proof -
  have "rfr_payloads e acc (split_nn chunk) = Inl (acc @ concat (texts e (deltas e ps1)))" for acc
    unfolding ch using ps1 d by (rule rfr_payloads_done)
  then show ?thesis
    unfolding readFullResponse_def
    by (simp add: rfr_chunks_no_done [OF pre] deltas_append)
qed

lemma first_done_chunk:
  assumes "\<exists>c\<in>set chunks. has_done c"
  obtains pre chunk post ps1 d ps2 where
    "chunks = pre @ chunk # post" "\<forall>c\<in>set pre. \<not> has_done c"
    "split_nn chunk = ps1 @ d # ps2" "\<forall>p\<in>set ps1. \<not> is_done p" "is_done d"
proof -
  from split_list_first_prop [where P = has_done and xs = chunks, OF assms]
  obtain pre chunk post where
    c: "chunks = pre @ chunk # post" "has_done chunk" "\<forall>c\<in>set pre. \<not> has_done c"
    by blast
  from c(2) have "\<exists>p\<in>set (split_nn chunk). is_done p"
    by (simp add: has_done_def list_ex_iff)
  from split_list_first_prop [where P = is_done and xs = "split_nn chunk", OF this]
  obtain ps1 d ps2 where
    "split_nn chunk = ps1 @ d # ps2" "is_done d" "\<forall>p\<in>set ps1. \<not> is_done p"
    by blast
  with c that show thesis by blast
qed

text \<open>
  Claim C1, as amended. The function ends at the first payload that contains the text
  \<^verbatim>\<open>[DONE]\<close> anywhere (the test is \<^verbatim>\<open>payload.includes('[DONE]')\<close>): the sentinel, or
  before it a \<^verbatim>\<open>data:\<close> payload whose own text mentions \<^verbatim>\<open>[DONE]\<close>. For every
  sequence of chunks with such a payload it returns the concatenation, in arrival order,
  of the content deltas of the \<^verbatim>\<open>data:\<close> payloads before the first one, each as
  \<^verbatim>\<open>+=\<close> renders it, and it returns at that payload: the later payloads of the chunk
  are not decoded, and the chunks after it are never pulled from the generator.
\<close>

theorem readFullResponse_done:
  assumes "\<exists>c\<in>set chunks. has_done c"
  shows "readFullResponse e chunks =
           (concat (texts e (deltas e (before_done chunks))), after_done chunks)"
proof -
  from assms obtain pre chunk post ps1 d ps2 where
    c: "chunks = pre @ chunk # post" and pre: "\<forall>c\<in>set pre. \<not> has_done c"
    and ch: "split_nn chunk = ps1 @ d # ps2" and ps1: "\<forall>p\<in>set ps1. \<not> is_done p"
    and d: "is_done d"
    by (rule first_done_chunk)
  have hd: "has_done chunk"
    using ch d by (simp add: has_done_def list_ex_iff)
  have prep: "\<forall>p\<in>set (concat (map split_nn pre)). \<not> is_done p"
    using pre by (auto simp: has_done_def list_ex_iff)
  have "concat (map split_nn chunks) =
          (concat (map split_nn pre) @ ps1) @ d # (ps2 @ concat (map split_nn post))"
    by (simp add: c ch)
  moreover have "\<forall>p\<in>set (concat (map split_nn pre) @ ps1). \<not> is_done p"
    using prep ps1 by auto
  ultimately have b: "before_done chunks = concat (map split_nn pre) @ ps1"
    unfolding before_done_def using d by (simp only: takeWhile_first not_not)
  have "dropWhile (\<lambda>c. \<not> has_done c) (pre @ chunk # post) = chunk # post"
    using pre hd by (simp only: dropWhile_first not_not)
  then have a: "after_done chunks = post"
    unfolding after_done_def c by simp
  from readFullResponse_split [OF pre ch ps1 d, of e post] show ?thesis
    unfolding b a by (simp add: c)
qed

theorem readFullResponse_done_witness:
  "(\<exists>c\<in>set demo_chunks. has_done c) \<and>
   readFullResponse demo_env demo_chunks = (''lspwd'', [data_payload ''y''])"
proof -
  have h: "\<exists>c\<in>set demo_chunks. has_done c"
    by code_simp
  have v: "concat (texts demo_env (deltas demo_env (before_done demo_chunks))) = ''lspwd''"
    by code_simp
  have a: "after_done demo_chunks = [data_payload ''y'']"
    by code_simp
  from readFullResponse_done [OF h, of demo_env] h show ?thesis
    unfolding v a by (rule_tac conjI)
qed

text \<open>
  The claim as stated fails on a stream whose sentinel is the last payload and whose
  second delta mentions \<^verbatim>\<open>[DONE]\<close>: the deltas before the sentinel are \<open>ls\<close>,
  \<open>say [DONE] now\<close>, \<open>x\<close> and \<open>y\<close>, and the function returns \<open>ls\<close> at the second
  payload, with three chunks left in the generator.
\<close>

theorem done_inside_a_delta:
  "texts demo_env (deltas demo_env done_in_delta) = [''ls'', ''say [DONE] now'', ''x'', ''y''] \<and>
   readFullResponse demo_env (done_in_delta @ [''data: [DONE]'']) =
     (''ls'', [data_payload ''x'', data_payload ''y'', ''data: [DONE]'']) \<and>
   concat (texts demo_env (deltas demo_env done_in_delta)) = ''lssay [DONE] nowxy''"
  by code_simp

section \<open>Payloads that are not content\<close>

lemma buffer_match_falsy:
  "\<not> pattern_truthy p \<Longrightarrow> buffer_match e p buf"
  by (cases p rule: pattern_truthy.cases) (simp_all add: buffer_match_def)

text \<open>
  Claim C6, as amended. Both loops test a payload for \<^verbatim>\<open>[DONE]\<close> before anything
  else: a payload that contains it ends the consumption, whatever else it holds. Of the
  other payloads, one that does not start with \<^verbatim>\<open>data:\<close> contributes nothing: neither
  loop changes the text it accumulates or calls the sink, and both go on with their
  variables unchanged. When \<^verbatim>\<open>JSON.parse\<close> rejects the remainder of a payload,
  \<open>parseContent\<close> returns, not throws, the diagnostic that embeds the raw payload and
  the error, a string that is not empty. For a \<^verbatim>\<open>data:\<close> payload without \<^verbatim>\<open>[DONE]\<close>
  the diagnostic is content as any other, and the loops go on:
  \<^item> \<open>readFullResponse\<close> appends it to the text;
  \<^item> \<open>readData\<close>, once it forwards, strips it, appends the result \<open>r\<close> to \<open>data\<close>
    and calls the sink with it; with no first exclusion pattern it does so from the
    first payload on;
  \<^item> \<open>readData\<close>, while it looks for the first exclusion pattern, appends it to the
    buffer; when the buffer then matches, the buffer is discarded, the diagnostic is not
    forwarded, and the loop over the payloads of the chunk is left.
\<close>

theorem malformed_payload_fail_open:
  "(\<not> startsWith payload ''data:'' \<longrightarrow>
      rfr_payloads e acc (payload # ps) = (if is_done payload then Inl acc else rfr_payloads e acc ps) \<and>
      data (snd (rd_payload e excluded st payload)) = data st \<and>
      written (snd (rd_payload e excluded st payload)) = written st \<and>
      (\<not> is_done payload \<and> \<not> stopTextStream st \<longrightarrow>
         rd_payload e excluded st payload = (Continue, st))) \<and>
   (json_parse e (trim (strip_data_prefix payload)) = Inl err \<longrightarrow>
      parseContent e payload =
        JStr (''Error with JSON.parse and '' @ payload @ ''.'' @ [CHR 0x0A] @ err) \<and>
      parse_diagnostic payload err = ''Error with JSON.parse and '' @ payload @ ''.'' @ [CHR 0x0A] @ err \<and>
      truthy e (parseContent e payload)) \<and>
   (startsWith payload ''data:'' \<and> \<not> is_done payload \<and>
    json_parse e (trim (strip_data_prefix payload)) = Inl err \<longrightarrow>
      rfr_payloads e acc (payload # ps) = rfr_payloads e (acc @ parse_diagnostic payload err) ps \<and>
      (\<not> stopTextStream st \<and> dataStart st \<and>
       stripRegexPatterns e (JStr (parse_diagnostic payload err)) excluded = Some r \<longrightarrow>
         rd_payload e excluded st payload =
           (Continue, st\<lparr>data := data st @ to_string e r, written := written st @ [r]\<rparr>)) \<and>
      (\<not> stopTextStream st \<and> \<not> dataStart st \<and> \<not> pattern_truthy (excludedPrefix excluded) \<and>
       stripRegexPatterns e (JStr (parse_diagnostic payload err)) excluded = Some r \<longrightarrow>
         rd_payload e excluded st payload =
           (Continue, st\<lparr>dataStart := True, buffer := [],
                         data := data st @ to_string e r, written := written st @ [r]\<rparr>)) \<and>
      (\<not> stopTextStream st \<and> \<not> dataStart st \<and> pattern_truthy (excludedPrefix excluded) \<and>
       \<not> buffer_match e (excludedPrefix excluded) (buffer st @ parse_diagnostic payload err) \<longrightarrow>
         rd_payload e excluded st payload =
           (Continue, st\<lparr>buffer := buffer st @ parse_diagnostic payload err\<rparr>)) \<and>
      (\<not> stopTextStream st \<and> \<not> dataStart st \<and> pattern_truthy (excludedPrefix excluded) \<and>
       buffer_match e (excludedPrefix excluded) (buffer st @ parse_diagnostic payload err) \<longrightarrow>
         rd_payload e excluded st payload = (Break, st\<lparr>dataStart := True, buffer := []\<rparr>))) \<and>
   (is_done payload \<longrightarrow>
      rfr_payloads e acc (payload # ps) = Inl acc \<and>
      rd_payload e excluded st payload = (Resolve, st\<lparr>dataStart := False\<rparr>))"
proof (intro conjI)
  show "\<not> startsWith payload ''data:'' \<longrightarrow>
      rfr_payloads e acc (payload # ps) = (if is_done payload then Inl acc else rfr_payloads e acc ps) \<and>
      data (snd (rd_payload e excluded st payload)) = data st \<and>
      written (snd (rd_payload e excluded st payload)) = written st \<and>
      (\<not> is_done payload \<and> \<not> stopTextStream st \<longrightarrow>
         rd_payload e excluded st payload = (Continue, st))"
    by (simp add: is_done_def rd_payload_def)
  show "json_parse e (trim (strip_data_prefix payload)) = Inl err \<longrightarrow>
      parseContent e payload =
        JStr (''Error with JSON.parse and '' @ payload @ ''.'' @ [CHR 0x0A] @ err) \<and>
      parse_diagnostic payload err = ''Error with JSON.parse and '' @ payload @ ''.'' @ [CHR 0x0A] @ err \<and>
      truthy e (parseContent e payload)"
    by (simp add: parseContent_def parse_diagnostic_def)
  show "startsWith payload ''data:'' \<and> \<not> is_done payload \<and>
    json_parse e (trim (strip_data_prefix payload)) = Inl err \<longrightarrow>
      rfr_payloads e acc (payload # ps) = rfr_payloads e (acc @ parse_diagnostic payload err) ps \<and>
      (\<not> stopTextStream st \<and> dataStart st \<and>
       stripRegexPatterns e (JStr (parse_diagnostic payload err)) excluded = Some r \<longrightarrow>
         rd_payload e excluded st payload =
           (Continue, st\<lparr>data := data st @ to_string e r, written := written st @ [r]\<rparr>)) \<and>
      (\<not> stopTextStream st \<and> \<not> dataStart st \<and> \<not> pattern_truthy (excludedPrefix excluded) \<and>
       stripRegexPatterns e (JStr (parse_diagnostic payload err)) excluded = Some r \<longrightarrow>
         rd_payload e excluded st payload =
           (Continue, st\<lparr>dataStart := True, buffer := [],
                         data := data st @ to_string e r, written := written st @ [r]\<rparr>)) \<and>
      (\<not> stopTextStream st \<and> \<not> dataStart st \<and> pattern_truthy (excludedPrefix excluded) \<and>
       \<not> buffer_match e (excludedPrefix excluded) (buffer st @ parse_diagnostic payload err) \<longrightarrow>
         rd_payload e excluded st payload =
           (Continue, st\<lparr>buffer := buffer st @ parse_diagnostic payload err\<rparr>)) \<and>
      (\<not> stopTextStream st \<and> \<not> dataStart st \<and> pattern_truthy (excludedPrefix excluded) \<and>
       buffer_match e (excludedPrefix excluded) (buffer st @ parse_diagnostic payload err) \<longrightarrow>
         rd_payload e excluded st payload = (Break, st\<lparr>dataStart := True, buffer := []\<rparr>))"
  proof (intro impI)
    assume a: "startsWith payload ''data:'' \<and> \<not> is_done payload \<and>
    json_parse e (trim (strip_data_prefix payload)) = Inl err"
    then have pc: "parseContent e payload = JStr (parse_diagnostic payload err)"
      by (simp add: parseContent_def)
    have ne: "parse_diagnostic payload err \<noteq> []"
      by (simp add: parse_diagnostic_def)
    have rp: "rd_payload e excluded s payload =
        rd_content e excluded s (JStr (parse_diagnostic payload err))" if "\<not> stopTextStream s" for s
      using a that by (simp add: rd_payload_def is_done_def pc)
    have 1: "rfr_payloads e acc (payload # ps) = rfr_payloads e (acc @ parse_diagnostic payload err) ps"
      using a by (simp add: is_done_def pc to_string_def)
    have 2: "\<not> stopTextStream st \<and> dataStart st \<and>
       stripRegexPatterns e (JStr (parse_diagnostic payload err)) excluded = Some r \<longrightarrow>
         rd_payload e excluded st payload =
           (Continue, st\<lparr>data := data st @ to_string e r, written := written st @ [r]\<rparr>)"
      using ne by (simp add: rp rd_content_def Let_def)
    have 3: "\<not> stopTextStream st \<and> \<not> dataStart st \<and> \<not> pattern_truthy (excludedPrefix excluded) \<and>
       stripRegexPatterns e (JStr (parse_diagnostic payload err)) excluded = Some r \<longrightarrow>
         rd_payload e excluded st payload =
           (Continue, st\<lparr>dataStart := True, buffer := [],
                         data := data st @ to_string e r, written := written st @ [r]\<rparr>)"
      using ne by (simp add: rp rd_content_def Let_def buffer_match_falsy)
    have 4: "\<not> stopTextStream st \<and> \<not> dataStart st \<and> pattern_truthy (excludedPrefix excluded) \<and>
       \<not> buffer_match e (excludedPrefix excluded) (buffer st @ parse_diagnostic payload err) \<longrightarrow>
         rd_payload e excluded st payload =
           (Continue, st\<lparr>buffer := buffer st @ parse_diagnostic payload err\<rparr>)"
      by (simp add: rp rd_content_def Let_def to_string_def)
    have 5: "\<not> stopTextStream st \<and> \<not> dataStart st \<and> pattern_truthy (excludedPrefix excluded) \<and>
       buffer_match e (excludedPrefix excluded) (buffer st @ parse_diagnostic payload err) \<longrightarrow>
         rd_payload e excluded st payload = (Break, st\<lparr>dataStart := True, buffer := []\<rparr>)"
      by (simp add: rp rd_content_def Let_def to_string_def)
    from 1 2 3 4 5 show "rfr_payloads e acc (payload # ps) = rfr_payloads e (acc @ parse_diagnostic payload err) ps \<and>
      (\<not> stopTextStream st \<and> dataStart st \<and>
       stripRegexPatterns e (JStr (parse_diagnostic payload err)) excluded = Some r \<longrightarrow>
         rd_payload e excluded st payload =
           (Continue, st\<lparr>data := data st @ to_string e r, written := written st @ [r]\<rparr>)) \<and>
      (\<not> stopTextStream st \<and> \<not> dataStart st \<and> \<not> pattern_truthy (excludedPrefix excluded) \<and>
       stripRegexPatterns e (JStr (parse_diagnostic payload err)) excluded = Some r \<longrightarrow>
         rd_payload e excluded st payload =
           (Continue, st\<lparr>dataStart := True, buffer := [],
                         data := data st @ to_string e r, written := written st @ [r]\<rparr>)) \<and>
      (\<not> stopTextStream st \<and> \<not> dataStart st \<and> pattern_truthy (excludedPrefix excluded) \<and>
       \<not> buffer_match e (excludedPrefix excluded) (buffer st @ parse_diagnostic payload err) \<longrightarrow>
         rd_payload e excluded st payload =
           (Continue, st\<lparr>buffer := buffer st @ parse_diagnostic payload err\<rparr>)) \<and>
      (\<not> stopTextStream st \<and> \<not> dataStart st \<and> pattern_truthy (excludedPrefix excluded) \<and>
       buffer_match e (excludedPrefix excluded) (buffer st @ parse_diagnostic payload err) \<longrightarrow>
         rd_payload e excluded st payload = (Break, st\<lparr>dataStart := True, buffer := []\<rparr>))"
      by (intro conjI)
  qed
  show "is_done payload \<longrightarrow>
      rfr_payloads e acc (payload # ps) = Inl acc \<and>
      rd_payload e excluded st payload = (Resolve, st\<lparr>dataStart := False\<rparr>)"
    by (simp add: is_done_def rd_payload_def)
qed

theorem malformed_payload_fail_open_witness:
  "rfr_payloads demo_env ''ab'' [''event: ping'', data_payload ''c''] = Inr ''abc'' \<and>
   rd_payload demo_env [] rd_init ''event: ping'' = (Continue, rd_init) \<and>
   parseContent demo_env ''data: {oops'' =
     JStr (''Error with JSON.parse and data: {oops.'' @ [CHR 0x0A] @ ''SyntaxError'') \<and>
   rfr_payloads demo_env ''ab'' [''data: {oops'', data_payload ''c''] =
     Inr (''abError with JSON.parse and data: {oops.'' @ [CHR 0x0A] @ ''SyntaxErrorc'') \<and>
   rd_payload demo_env [] rd_init ''data: {oops'' =
     (Continue,
      \<lparr>stopTextStream = False,
       data = ''Error with JSON.parse and data: {oops.'' @ [CHR 0x0A] @ ''SyntaxError'',
       dataStart = True, buffer = [],
       written = [JStr (''Error with JSON.parse and data: {oops.'' @ [CHR 0x0A] @ ''SyntaxError'')]\<rparr>) \<and>
   rd_payload demo_env [Some (Str fence)] rd_init ''data: {oops'' =
     (Continue,
      \<lparr>stopTextStream = False, data = [], dataStart = False,
       buffer = ''Error with JSON.parse and data: {oops.'' @ [CHR 0x0A] @ ''SyntaxError'',
       written = []\<rparr>) \<and>
   rd_payload demo_env [Some (Str fence)] (rd_init\<lparr>dataStart := True\<rparr>) ''data: {oops'' =
     (Continue,
      \<lparr>stopTextStream = False,
       data = ''Error with JSON.parse and data: {oops.'' @ [CHR 0x0A] @ ''SyntaxError'',
       dataStart = True, buffer = [],
       written = [JStr (''Error with JSON.parse and data: {oops.'' @ [CHR 0x0A] @ ''SyntaxError'')]\<rparr>) \<and>
   json_parse demo_env (trim (strip_data_prefix (''data: '' @ fence))) = Inl ''SyntaxError'' \<and>
   rd_payload demo_env [Some (Str fence)] rd_init (''data: '' @ fence) =
     (Break, \<lparr>stopTextStream = False, data = [], dataStart = True, buffer = [], written = []\<rparr>) \<and>
   rd_payload demo_env [] rd_init ''data: [DONE]'' = (Resolve, rd_init) \<and>
   sink (fst (readData demo_env [] t0
     [Chunk ''data: {oops'', Chunk (data_payload ''c''), Chunk ''data: [DONE]''] Closes)) =
     [JStr (''Error with JSON.parse and data: {oops.'' @ [CHR 0x0A] @ ''SyntaxError''), JStr ''c'']"
proof -
  let ?d = "''Error with JSON.parse and data: {oops.'' @ [CHR 0x0A] @ ''SyntaxError''"
  have a: "\<not> startsWith ''event: ping'' ''data:''" "\<not> is_done ''event: ping''"
    "startsWith ''data: {oops'' ''data:''" "\<not> is_done ''data: {oops''" "is_done ''data: [DONE]''"
    by code_simp+
  have b: "json_parse demo_env (trim (strip_data_prefix ''data: {oops'')) = Inl ''SyntaxError''"
    by code_simp
  have pd: "parse_diagnostic ''data: {oops'' ''SyntaxError'' = ?d"
    by (simp add: parse_diagnostic_def)
  have c: "rfr_payloads demo_env ''ab'' [data_payload ''c''] = Inr ''abc''"
    by code_simp
  have d: "rfr_payloads demo_env (''ab'' @ ?d) [data_payload ''c''] =
     Inr (''abError with JSON.parse and data: {oops.'' @ [CHR 0x0A] @ ''SyntaxErrorc'')"
    by code_simp
  have s: "\<not> stopTextStream rd_init" "\<not> dataStart rd_init" "buffer rd_init = []"
    "data rd_init = []" "written rd_init = []"
    by (simp_all add: rd_init_def)
  have x: "\<not> pattern_truthy (excludedPrefix [])" "pattern_truthy (excludedPrefix [Some (Str fence)])"
    "\<not> buffer_match demo_env (excludedPrefix [Some (Str fence)]) (buffer rd_init @ ?d)"
    by code_simp+
  have t: "stripRegexPatterns demo_env v ex = Some v" "to_string demo_env (JStr y) = y" for v ex y
    by (simp_all add: demo_env_def to_string_def)
  note m1 = malformed_payload_fail_open [where payload = "''event: ping''" and e = demo_env
      and acc = "''ab''" and ps = "[data_payload ''c'']" and st = rd_init and excluded = "[]",
      THEN conjunct1, THEN mp, OF a(1)]
  have 1: "rfr_payloads demo_env ''ab'' [''event: ping'', data_payload ''c''] = Inr ''abc''"
    using m1 [THEN conjunct1] a(2) c by simp
  have 2: "rd_payload demo_env [] rd_init ''event: ping'' = (Continue, rd_init)"
    using m1 [THEN conjunct2, THEN conjunct2, THEN conjunct2] a(2) s(1) by simp
  have 3: "parseContent demo_env ''data: {oops'' = JStr ?d"
    using malformed_payload_fail_open [where payload = "''data: {oops''" and e = demo_env
      and err = "''SyntaxError''", THEN conjunct2, THEN conjunct1, THEN mp, OF b, THEN conjunct1]
    by simp
  have h: "startsWith ''data: {oops'' ''data:'' \<and> \<not> is_done ''data: {oops'' \<and>
      json_parse demo_env (trim (strip_data_prefix ''data: {oops'')) = Inl ''SyntaxError''"
    using a b by simp
  note m3 = malformed_payload_fail_open [where payload = "''data: {oops''" and e = demo_env
      and err = "''SyntaxError''" and acc = "''ab''" and ps = "[data_payload ''c'']"
      and st = rd_init and excluded = "[]" and r = "JStr ?d",
      THEN conjunct2, THEN conjunct2, THEN conjunct1, THEN mp, OF h]
  have 4: "rfr_payloads demo_env ''ab'' [''data: {oops'', data_payload ''c''] =
     Inr (''abError with JSON.parse and data: {oops.'' @ [CHR 0x0A] @ ''SyntaxErrorc'')"
    using m3 [THEN conjunct1] by (simp only: pd d)
  have 5: "rd_payload demo_env [] rd_init ''data: {oops'' =
     (Continue, \<lparr>stopTextStream = False, data = ?d, dataStart = True, buffer = [],
        written = [JStr ?d]\<rparr>)"
    using m3 [THEN conjunct2, THEN conjunct2, THEN conjunct1] s(1,2) x(1)
    by (simp add: pd t) (simp add: rd_init_def)
  note m4 = malformed_payload_fail_open [where payload = "''data: {oops''" and e = demo_env
      and err = "''SyntaxError''" and st = rd_init and excluded = "[Some (Str fence)]",
      THEN conjunct2, THEN conjunct2, THEN conjunct1, THEN mp, OF h]
  have 6: "rd_payload demo_env [Some (Str fence)] rd_init ''data: {oops'' =
     (Continue, \<lparr>stopTextStream = False, data = [], dataStart = False, buffer = ?d, written = []\<rparr>)"
    using m4 [THEN conjunct2, THEN conjunct2, THEN conjunct2, THEN conjunct1] s(1,2) x(2,3)
    by (simp add: pd) (simp add: rd_init_def)
  note m5 = malformed_payload_fail_open [where payload = "''data: {oops''" and e = demo_env
      and err = "''SyntaxError''" and st = "rd_init\<lparr>dataStart := True\<rparr>"
      and excluded = "[Some (Str fence)]" and r = "JStr ?d",
      THEN conjunct2, THEN conjunct2, THEN conjunct1, THEN mp, OF h]
  have fw: "rd_payload demo_env [Some (Str fence)] (rd_init\<lparr>dataStart := True\<rparr>) ''data: {oops'' =
     (Continue, \<lparr>stopTextStream = False, data = ?d, dataStart = True, buffer = [],
        written = [JStr ?d]\<rparr>)"
    using m5 [THEN conjunct2, THEN conjunct1]
    by (simp add: pd t) (simp add: rd_init_def)
  have f: "startsWith (''data: '' @ fence) ''data:''" "\<not> is_done (''data: '' @ fence)"
    "json_parse demo_env (trim (strip_data_prefix (''data: '' @ fence))) = Inl ''SyntaxError''"
    "buffer_match demo_env (excludedPrefix [Some (Str fence)])
       (buffer rd_init @ parse_diagnostic (''data: '' @ fence) ''SyntaxError'')"
    by code_simp+
  have hf: "startsWith (''data: '' @ fence) ''data:'' \<and> \<not> is_done (''data: '' @ fence) \<and>
      json_parse demo_env (trim (strip_data_prefix (''data: '' @ fence))) = Inl ''SyntaxError''"
    using f by simp
  note m6 = malformed_payload_fail_open [where payload = "''data: '' @ fence" and e = demo_env
      and err = "''SyntaxError''" and st = rd_init and excluded = "[Some (Str fence)]",
      THEN conjunct2, THEN conjunct2, THEN conjunct1, THEN mp, OF hf]
  have br: "rd_payload demo_env [Some (Str fence)] rd_init (''data: '' @ fence) =
     (Break, \<lparr>stopTextStream = False, data = [], dataStart = True, buffer = [], written = []\<rparr>)"
    using m6 [THEN conjunct2, THEN conjunct2, THEN conjunct2, THEN conjunct2] s(1,2) x(2) f(4)
    by (simp add: rd_init_def)
  have 7: "rd_payload demo_env [] rd_init ''data: [DONE]'' = (Resolve, rd_init)"
    using malformed_payload_fail_open [where payload = "''data: [DONE]''" and e = demo_env
      and st = rd_init and excluded = "[]",
      THEN conjunct2, THEN conjunct2, THEN conjunct2, THEN mp, OF a(5), THEN conjunct2]
    by (simp add: rd_init_def)
  have 8: "sink (fst (readData demo_env [] t0
     [Chunk ''data: {oops'', Chunk (data_payload ''c''), Chunk ''data: [DONE]''] Closes)) =
     [JStr ?d, JStr ''c'']"
    by code_simp
  from 1 2 3 4 5 6 fw f(3) br 7 8 show ?thesis by (intro conjI)
qed

text \<open>
  The claim as stated fails on a \<^verbatim>\<open>data:\<close> payload that \<^verbatim>\<open>JSON.parse\<close> rejects and that
  mentions \<^verbatim>\<open>[DONE]\<close>: it yields no diagnostic and it ends the consumption, in both
  loops, with the next chunk left in the generator.
\<close>

theorem malformed_done_ends_stream:
  "startsWith ''data: {oops [DONE]'' ''data:'' \<and>
   json_parse demo_env (trim (strip_data_prefix ''data: {oops [DONE]'')) = Inl ''SyntaxError'' \<and>
   readFullResponse demo_env [''data: {oops [DONE]'', data_payload ''c''] = ([], [data_payload ''c'']) \<and>
   fst (readData demo_env [] t0 [Chunk ''data: {oops [DONE]'', Chunk (data_payload ''c'')] Closes) =
     \<lparr>resolved = Some [], sink = [], unread = [Chunk (data_payload ''c'')]\<rparr>"
  by code_simp

section \<open>The count of the request\<close>

text \<open>
  Claim C7, as amended. The count sent is the smaller of the caller's count and 10:
  it never exceeds 10, a count of 15 is sent as 10, and a caller that gives none sends
  1. A count of 10 or less is sent as it is, also when it is below 1: the code has
  \<^verbatim>\<open>Math.min(number, 10)\<close> and no lower bound.
\<close>

theorem completion_count_upper_clamp:
  "n (request_of p number m) = min (case number of None \<Rightarrow> 1 | Some k \<Rightarrow> k) 10 \<and>
   n (request_of p number m) \<le> 10 \<and>
   (number = None \<longrightarrow> n (request_of p number m) = 1) \<and>
   (number = Some 15 \<longrightarrow> n (request_of p number m) = 10) \<and>
   (\<forall>k. number = Some k \<and> k \<le> 10 \<longrightarrow> n (request_of p number m) = k)"
  by (auto simp: request_of_def)

theorem completion_count_upper_clamp_witness:
  "n (request_of (Text ''list files'') (Some 15) None) = 10 \<and>
   n (request_of (Text ''list files'') None None) = 1 \<and>
   n (request_of (Text ''list files'') (Some 3) None) = 3"
  using completion_count_upper_clamp [of "Text ''list files''" "Some 15" None]
    completion_count_upper_clamp [of "Text ''list files''" None None]
    completion_count_upper_clamp [of "Text ''list files''" "Some 3" None]
  by simp

text \<open>The claim as stated fails: a count of 0 is sent as 0.\<close>

theorem completion_count_below_one: "\<not> 1 \<le> n (request_of (Text ''list files'') (Some 0) None)"
  by (simp add: request_of_def)

section \<open>The terminal after readData\<close>

text \<open>
  Claim C8, as amended. Whatever the run (the sentinel, a cancellation, the end of the
  stream or a stream that throws), after \<open>readData\<close> standard input is in raw mode,
  the readline interface it created is open and its listener of \<^verbatim>\<open>keypress\<close> is
  registered: the function sets them up before the loop and has no statement that
  releases them.
\<close>

theorem readData_leaves_raw_mode:
  "snd (readData e excluded t evs fin) = rd_setup t \<and>
   rawMode (snd (readData e excluded t evs fin)) \<and>
   openInterfaces (snd (readData e excluded t evs fin)) = Suc (openInterfaces t) \<and>
   keypressListeners (snd (readData e excluded t evs fin)) = Suc (keypressListeners t)"
  by (simp add: readData_def rd_setup_def)

text \<open>
  The claim as stated fails on the normal path: the run that receives the sentinel
  resolves and leaves the terminal in raw mode.
\<close>

theorem readData_done_raw_mode:
  "resolved (fst (readData demo_env [] t0 [Chunk ''data: [DONE]''] Closes)) = Some [] \<and>
   rawMode (snd (readData demo_env [] t0 [Chunk ''data: [DONE]''] Closes)) \<and>
   openInterfaces (snd (readData demo_env [] t0 [Chunk ''data: [DONE]''] Closes)) = 1 \<and>
   keypressListeners (snd (readData demo_env [] t0 [Chunk ''data: [DONE]''] Closes)) = 1"
  by code_simp

section \<open>readData: cancellation\<close>

lemma split_from_nonempty: "split_from acc s \<noteq> []"
  by (induction acc s rule: split_from.induct) auto

lemma split_nn_nonempty: "split_nn c \<noteq> []"
  by (simp add: split_nn_def split_from_nonempty)

lemma rd_payload_stop:
  "stopTextStream st \<Longrightarrow> rd_payload e excluded st p = (Resolve, st\<lparr>dataStart := False\<rparr>)"
  by (simp add: rd_payload_def)

lemma rd_payloads_stop:
  "stopTextStream st \<Longrightarrow> ps \<noteq> [] \<Longrightarrow>
     rd_payloads e excluded st ps = (Some Returned, st\<lparr>dataStart := False\<rparr>)"
  by (cases ps) (simp_all add: rd_payload_stop)

lemma on_keypress_keeps [simp]:
  "data (on_keypress st name) = data st"
  "written (on_keypress st name) = written st"
  "buffer (on_keypress st name) = buffer st"
  "dataStart (on_keypress st name) = dataStart st"
  by (simp_all add: on_keypress_def)

lemma on_keypress_stop:
  "stopTextStream (on_keypress st name) \<longleftrightarrow> stopTextStream st \<or> name \<in> set stopTextStreamKeys"
  by (simp add: on_keypress_def)

lemma rd_events_stopped:
  "stopTextStream st \<Longrightarrow>
     sink (rd_events e excluded st evs fin) = written st \<and>
     ((\<exists>c. Chunk c \<in> set evs) \<or> fin = Closes \<longrightarrow>
        resolved (rd_events e excluded st evs fin) = Some (data st)) \<and>
     ((\<forall>c. Chunk c \<notin> set evs) \<and> fin = Throws \<longrightarrow>
        resolved (rd_events e excluded st evs fin) = None)"
proof (induction evs arbitrary: st)
  case Nil
  then show ?case by (cases fin) simp_all
next
  case (Cons ev evs)
  show ?case
  proof (cases ev)
    case (Chunk c)
    with Cons.prems show ?thesis
      by (auto simp: rd_payloads_stop split_nn_nonempty)
  next
    case (Keypress name)
    have "stopTextStream (on_keypress st name)"
      using Cons.prems by (simp add: on_keypress_stop)
    from Cons.IH [OF this] Keypress show ?thesis by simp
  qed
qed

lemma rd_events_reach:
  "rd_reach e excluded st pre = Some st' \<Longrightarrow>
     rd_events e excluded st (pre @ evs) fin = rd_events e excluded st' evs fin"
proof (induction e excluded st pre rule: rd_reach.induct)
  case (1 e excluded st)
  then show ?case by simp
next
  case (2 e excluded st name evs')
  then show ?case by simp
next
  case (3 e excluded st chunk evs')
  then show ?case by (auto split: prod.splits option.splits)
qed

text \<open>
  Claim C3, as amended. The flag is set by a press of \<^verbatim>\<open>q\<close> or \<^verbatim>\<open>escape\<close> while the
  function waits; \<open>st\<close> holds the variables at that point. From then on nothing is
  forwarded: the sink holds what it held, and whenever the body of the loop finds the
  flag set it resolves and returns before it decodes the payload. When the stream then yields another chunk or
  closes, the promise resolves with exactly the text accumulated at that point; when the
  stream throws instead, the promise is never resolved.
\<close>

theorem cancellation_stops_forwarding:
  assumes reach: "rd_reach e excluded rd_init pre = Some st"
    and key: "name \<in> set stopTextStreamKeys"
  shows "(\<forall>st' payload. stopTextStream st' \<longrightarrow>
            rd_payload e excluded st' payload = (Resolve, st'\<lparr>dataStart := False\<rparr>)) \<and>
         sink (fst (readData e excluded t (pre @ Keypress name # post) fin)) = written st \<and>
         ((\<exists>c. Chunk c \<in> set post) \<or> fin = Closes \<longrightarrow>
            resolved (fst (readData e excluded t (pre @ Keypress name # post) fin)) = Some (data st)) \<and>
         ((\<forall>c. Chunk c \<notin> set post) \<and> fin = Throws \<longrightarrow>
            resolved (fst (readData e excluded t (pre @ Keypress name # post) fin)) = None)"
proof -
  have "stopTextStream (on_keypress st name)"
    using key by (simp add: on_keypress_stop)
  from rd_events_stopped [OF this, of e excluded post fin]
  show ?thesis
    by (simp add: readData_def rd_events_reach [OF reach] rd_payload_stop)
qed

theorem cancellation_stops_forwarding_witness:
  "rd_reach demo_env [] rd_init [Chunk (data_payload ''ls'')] \<noteq> None \<and>
   ''q'' \<in> set stopTextStreamKeys \<and>
   sink (fst (readData demo_env [] t0 ([Chunk (data_payload ''ls'')] @ Keypress ''q'' # demo_run) Closes))
     = [JStr ''ls''] \<and>
   resolved (fst (readData demo_env [] t0 ([Chunk (data_payload ''ls'')] @ Keypress ''q'' # demo_run) Closes))
     = Some ''ls''"
proof -
  have r: "rd_reach demo_env [] rd_init [Chunk (data_payload ''ls'')] =
      Some \<lparr>stopTextStream = False, data = ''ls'', dataStart = True, buffer = [], written = [JStr ''ls'']\<rparr>"
    by code_simp
  have k: "''q'' \<in> set stopTextStreamKeys"
    by code_simp
  have c: "\<exists>c. Chunk c \<in> set demo_run"
    by (auto simp: demo_run_def)
  from cancellation_stops_forwarding [OF r k, of t0 demo_run Closes] r k c
  show ?thesis by simp
qed

text \<open>
  The claim as stated fails when the stream throws after the key press: nothing calls
  \<^verbatim>\<open>resolve\<close>, and the promise stays pending.
\<close>

theorem cancellation_then_stream_error:
  "resolved (fst (readData demo_env [] t0 [Chunk (data_payload ''ls''), Keypress ''q''] Throws)) = None \<and>
   sink (fst (readData demo_env [] t0 [Chunk (data_payload ''ls''), Keypress ''q''] Throws)) = [JStr ''ls'']"
  by code_simp

section \<open>readData: a boundary that is never found\<close>

lemma never_match_append:
  "never_match e p buf (ds1 @ ds2) \<longleftrightarrow>
     never_match e p buf ds1 \<and> never_match e p (buf @ concat ds1) ds2"
  by (induction ds1 arbitrary: buf) auto

lemma never_match_iff:
  "never_match e p buf ds \<longleftrightarrow>
     (\<forall>k. 1 \<le> k \<and> k \<le> length ds \<longrightarrow> \<not> buffer_match e p (buf @ concat (take k ds)))"
proof (induction ds arbitrary: buf)
  case Nil
  then show ?case by simp
next
  case (Cons d ds)
  show ?case
  proof
    assume a: "never_match e p buf (d # ds)"
    show "\<forall>k. 1 \<le> k \<and> k \<le> length (d # ds) \<longrightarrow>
            \<not> buffer_match e p (buf @ concat (take k (d # ds)))"
    proof (intro allI impI)
      fix k assume k: "1 \<le> k \<and> k \<le> length (d # ds)"
      then obtain j where j: "k = Suc j" by (cases k) auto
      show "\<not> buffer_match e p (buf @ concat (take k (d # ds)))"
      proof (cases j)
        case 0
        with a j show ?thesis by simp
      next
        case (Suc i)
        from a have "never_match e p (buf @ d) ds" by simp
        with Cons.IH [of "buf @ d"] k j Suc
        have "\<not> buffer_match e p ((buf @ d) @ concat (take j ds))" by simp
        with j show ?thesis by simp
      qed
    qed
  next
    assume a: "\<forall>k. 1 \<le> k \<and> k \<le> length (d # ds) \<longrightarrow>
            \<not> buffer_match e p (buf @ concat (take k (d # ds)))"
    from a [rule_format, of 1] have 1: "\<not> buffer_match e p (buf @ d)" by simp
    have "\<not> buffer_match e p ((buf @ d) @ concat (take k ds))"
      if "1 \<le> k \<and> k \<le> length ds" for k
      using a [rule_format, of "Suc k"] that by simp
    with Cons.IH [of "buf @ d"] have "never_match e p (buf @ d) ds" by blast
    with 1 show "never_match e p buf (d # ds)" by simp
  qed
qed

lemma deltas_Cons:
  "deltas e (p # ps) = (if startsWith p ''data:'' then parseContent e p # deltas e ps else deltas e ps)"
  by (simp add: deltas_def)

text \<open>One payload while the function looks for the boundary and does not find it.\<close>

lemma rd_payload_buffering:
  assumes "\<not> dataStart st" and "\<not> stopTextStream st" and "\<not> is_done p"
    and "never_match e (excludedPrefix excluded) (buffer st) (texts e (deltas e [p]))"
  shows "rd_payload e excluded st p =
           (Continue, st\<lparr>buffer := buffer st @ concat (texts e (deltas e [p]))\<rparr>)"
proof (cases "startsWith p ''data:''")
  case True
  with assms show ?thesis
    by (simp add: rd_payload_def rd_content_def is_done_def deltas_Cons deltas_def)
next
  case False
  with assms show ?thesis
    by (simp add: rd_payload_def is_done_def deltas_def)
qed

lemma rd_payloads_buffering:
  assumes "\<not> dataStart st"
    and "never_match e (excludedPrefix excluded) (buffer st) (texts e (deltas e ps))"
    and "\<forall>p\<in>set ps. \<not> is_done p"
  shows "rd_payloads e excluded st ps =
           (if stopTextStream st \<and> ps \<noteq> [] then (Some Returned, st\<lparr>dataStart := False\<rparr>)
            else (None, st\<lparr>buffer := buffer st @ concat (texts e (deltas e ps))\<rparr>))"
  using assms
proof (induction ps arbitrary: st)
  case Nil
  then show ?case by (simp add: deltas_def)
next
  case (Cons p ps)
  show ?case
  proof (cases "stopTextStream st")
    case True
    then show ?thesis by (simp add: rd_payload_stop)
  next
    case False
    let ?st1 = "st\<lparr>buffer := buffer st @ concat (texts e (deltas e [p]))\<rparr>"
    have sp: "deltas e (p # ps) = deltas e [p] @ deltas e ps"
      using deltas_append [of e "[p]" ps] by simp
    from Cons.prems(2) have nm: "never_match e (excludedPrefix excluded) (buffer st) (texts e (deltas e [p]))"
      and nm': "never_match e (excludedPrefix excluded) (buffer ?st1) (texts e (deltas e ps))"
      unfolding sp by (simp_all add: never_match_append)
    from Cons.prems have nd: "\<not> is_done p" by simp
    have step: "rd_payload e excluded st p = (Continue, ?st1)"
      using Cons.prems(1) False nd nm by (rule rd_payload_buffering)
    have "rd_payloads e excluded ?st1 ps =
            (if stopTextStream ?st1 \<and> ps \<noteq> [] then (Some Returned, ?st1\<lparr>dataStart := False\<rparr>)
             else (None, ?st1\<lparr>buffer := buffer ?st1 @ concat (texts e (deltas e ps))\<rparr>))"
      using Cons.prems nm' by (intro Cons.IH) simp_all
    with step False show ?thesis by (simp add: sp)
  qed
qed

lemma rd_payloads_buffering_done:
  assumes "\<not> dataStart st"
    and "never_match e (excludedPrefix excluded) (buffer st) (texts e (deltas e ps1))"
    and "\<forall>p\<in>set ps1. \<not> is_done p"
    and "is_done d"
  shows "\<exists>st'. rd_payloads e excluded st (ps1 @ d # ps2) = (Some Returned, st') \<and>
           data st' = data st \<and> written st' = written st"
  using assms
proof (induction ps1 arbitrary: st)
  case Nil
  then show ?case by (simp add: rd_payload_def is_done_def)
next
  case (Cons p ps)
  show ?case
  proof (cases "stopTextStream st")
    case True
    then show ?thesis by (simp add: rd_payload_stop)
  next
    case False
    let ?st1 = "st\<lparr>buffer := buffer st @ concat (texts e (deltas e [p]))\<rparr>"
    have sp: "deltas e (p # ps) = deltas e [p] @ deltas e ps"
      using deltas_append [of e "[p]" ps] by simp
    from Cons.prems(2) have nm: "never_match e (excludedPrefix excluded) (buffer st) (texts e (deltas e [p]))"
      and nm': "never_match e (excludedPrefix excluded) (buffer ?st1) (texts e (deltas e ps))"
      unfolding sp by (simp_all add: never_match_append)
    from Cons.prems have nd: "\<not> is_done p" by simp
    have step: "rd_payload e excluded st p = (Continue, ?st1)"
      using Cons.prems(1) False nd nm by (rule rd_payload_buffering)
    have "\<exists>st'. rd_payloads e excluded ?st1 (ps @ d # ps2) = (Some Returned, st') \<and>
            data st' = data ?st1 \<and> written st' = written ?st1"
      using Cons.prems nm' by (intro Cons.IH) simp_all
    with step show ?thesis by simp
  qed
qed

lemma before_done_Cons_done:
  assumes "split_nn c = ps1 @ d # ps2" "\<forall>p\<in>set ps1. \<not> is_done p" "is_done d"
  shows "before_done (c # cs) = ps1"
  using assms by (simp add: before_done_def takeWhile_first)

lemma before_done_Cons_no_done:
  assumes "\<not> has_done c"
  shows "before_done (c # cs) = split_nn c @ before_done cs"
  using assms by (simp add: before_done_def has_done_def list_ex_iff)

lemma rd_events_never_match:
  assumes "\<not> dataStart st"
    and "\<exists>c\<in>set (chunks_of evs). has_done c"
    and "never_match e (excludedPrefix excluded) (buffer st)
           (texts e (deltas e (before_done (chunks_of evs))))"
  shows "resolved (rd_events e excluded st evs fin) = Some (data st) \<and>
         sink (rd_events e excluded st evs fin) = written st"
  using assms
proof (induction evs arbitrary: st)
  case Nil
  then show ?case by simp
next
  case (Cons ev evs)
  show ?case
  proof (cases ev)
    case (Keypress name)
    have "resolved (rd_events e excluded (on_keypress st name) evs fin) =
            Some (data (on_keypress st name)) \<and>
          sink (rd_events e excluded (on_keypress st name) evs fin) = written (on_keypress st name)"
      using Cons.prems Keypress by (intro Cons.IH) simp_all
    with Keypress show ?thesis by simp
  next
    case (Chunk c)
    show ?thesis
    proof (cases "has_done c")
      case True
      then have "\<exists>p\<in>set (split_nn c). is_done p"
        by (simp add: has_done_def list_ex_iff)
      from split_list_first_prop [where P = is_done and xs = "split_nn c", OF this]
      obtain ps1 d ps2 where
        sp: "split_nn c = ps1 @ d # ps2" and d: "is_done d" and ps1: "\<forall>p\<in>set ps1. \<not> is_done p"
        by blast
      have bd: "before_done (chunks_of (ev # evs)) = ps1"
        using Chunk before_done_Cons_done [OF sp ps1 d] by simp
      with Cons.prems have "never_match e (excludedPrefix excluded) (buffer st) (texts e (deltas e ps1))"
        by simp
      from rd_payloads_buffering_done [OF Cons.prems(1) this ps1 d, of ps2]
      obtain st' where "rd_payloads e excluded st (split_nn c) = (Some Returned, st')"
        "data st' = data st" "written st' = written st"
        unfolding sp by blast
      with Chunk show ?thesis by simp
    next
      case False
      then have nd: "\<forall>p\<in>set (split_nn c). \<not> is_done p"
        by (simp add: has_done_def list_ex_iff)
      have bd: "before_done (chunks_of (ev # evs)) = split_nn c @ before_done (chunks_of evs)"
        using Chunk before_done_Cons_no_done [OF False] by simp
      from Cons.prems(3)
      have nm1: "never_match e (excludedPrefix excluded) (buffer st) (texts e (deltas e (split_nn c)))"
        and nm2: "never_match e (excludedPrefix excluded)
                    (buffer st @ concat (texts e (deltas e (split_nn c))))
                    (texts e (deltas e (before_done (chunks_of evs))))"
        unfolding bd by (simp_all add: deltas_append never_match_append)
      note pl = rd_payloads_buffering [OF Cons.prems(1) nm1 nd]
      show ?thesis
      proof (cases "stopTextStream st")
        case True
        with pl Chunk show ?thesis by (simp add: split_nn_nonempty)
      next
        case nostop: False
        let ?st' = "st\<lparr>buffer := buffer st @ concat (texts e (deltas e (split_nn c)))\<rparr>"
        from pl nostop have r: "rd_payloads e excluded st (split_nn c) = (None, ?st')" by simp
        have "resolved (rd_events e excluded ?st' evs fin) = Some (data ?st') \<and>
              sink (rd_events e excluded ?st' evs fin) = written ?st'"
          using Cons.prems False Chunk nm2 by (intro Cons.IH) simp_all
        with r Chunk show ?thesis by simp
      qed
    qed
  qed
qed

text \<open>
  Claim C10. When the stream brings the sentinel and the buffer, which grows by one
  delta at a time, never matches the first exclusion pattern before it, \<open>readData\<close>
  never calls the sink and resolves with the empty string. Key presses may come at any
  point of the run. By \<open>never_match_iff\<close> the hypothesis speaks of the prefixes of the
  concatenated deltas that end with a delta; the deltas are taken as \<^verbatim>\<open>+=\<close> renders
  them.
\<close>

theorem readData_prefix_never_found:
  assumes "\<exists>c\<in>set (chunks_of evs). has_done c"
    and "never_match e (excludedPrefix excluded) []
           (texts e (deltas e (before_done (chunks_of evs))))"
  shows "resolved (fst (readData e excluded t evs fin)) = Some [] \<and>
         sink (fst (readData e excluded t evs fin)) = []"
  using rd_events_never_match [of rd_init evs e excluded fin] assms
  by (simp add: readData_def rd_init_def)

theorem readData_prefix_never_found_witness:
  "(\<exists>c\<in>set (chunks_of demo_fenced). has_done c) \<and>
   texts demo_env (deltas demo_env (before_done (chunks_of demo_fenced))) = [''ls'', ''pwd''] \<and>
   \<not> buffer_match demo_env (Some (Str fence)) ''ls'' \<and>
   \<not> buffer_match demo_env (Some (Str fence)) ''lspwd'' \<and>
   resolved (fst (readData demo_env [Some (Str fence)] t0 demo_fenced Closes)) = Some [] \<and>
   sink (fst (readData demo_env [Some (Str fence)] t0 demo_fenced Closes)) = []"
proof -
  have h: "\<exists>c\<in>set (chunks_of demo_fenced). has_done c"
    by code_simp
  have d: "texts demo_env (deltas demo_env (before_done (chunks_of demo_fenced))) = [''ls'', ''pwd'']"
    by code_simp
  have m: "\<not> buffer_match demo_env (Some (Str fence)) ''ls''"
    "\<not> buffer_match demo_env (Some (Str fence)) ''lspwd''"
    by code_simp+
  have x: "excludedPrefix [Some (Str fence)] = Some (Str fence)"
    by (simp add: excludedPrefix_def)
  have n: "never_match demo_env (excludedPrefix [Some (Str fence)]) []
             (texts demo_env (deltas demo_env (before_done (chunks_of demo_fenced))))"
    unfolding d x using m by simp
  from readData_prefix_never_found [OF h n, of t0 Closes] h d m
  show ?thesis by simp
qed

section \<open>readData: the boundary and the forwarding\<close>






lemma helper_returns_Nil: "helper_returns e excluded []"
  by (simp add: helper_returns_def deltas_def)




text \<open>
  A content that is not truthy (the empty string, \<^verbatim>\<open>false\<close>, a number that is zero
  or not a number) is not forwarded: the function goes on with its variables unchanged.
\<close>

lemma falsy_content_not_forwarded:
  "dataStart st \<Longrightarrow> \<not> truthy e v \<Longrightarrow> rd_content e excluded st v = (Continue, st)"
  by (simp add: rd_content_def)

lemma false_content_not_forwarded:
  "rd_content e excluded (st\<lparr>dataStart := True\<rparr>) (JBool False) = (Continue, st\<lparr>dataStart := True\<rparr>)"
  by (simp add: falsy_content_not_forwarded)

text \<open>
  When the helper throws, the function is left without a call of \<^verbatim>\<open>resolve\<close> or of
  the sink.
\<close>

lemma helper_throws:
  assumes "dataStart st" "truthy e v" "stripRegexPatterns e v excluded = None"
  shows "rd_content e excluded st v = (Throw, st)"
  using assms by (simp add: rd_content_def)

lemma thrown_stays_pending:
  "rd_payloads e excluded st (split_nn chunk) = (Some Thrown, st') \<Longrightarrow>
     rd_events e excluded st (Chunk chunk # evs) fin =
       \<lparr>resolved = None, sink = written st', unread = evs\<rparr>"
  by simp










section \<open>generateCompletion: the mapping of failures\<close>

lemma known_with_middle: "known_with (KnownError (a @ b @ c)) b"
  by (simp add: known_with_def includes_str_append)

lemma known_with_first: "includes_str a b \<Longrightarrow> known_with (KnownError (a @ c)) b"
proof -
  assume "includes_str a b"
  then obtain x y where "a = x @ b @ y" by (auto simp: includes_str_iff)
  then have "a @ c = x @ b @ (y @ c)" by simp
  then show ?thesis unfolding known_with_def by (simp only: failure.case includes_str_append)
qed

text \<open>
  The \<^verbatim>\<open>catch\<close> block decides in this order.
  \<^item> The code \<^verbatim>\<open>ENOTFOUND\<close>, whatever the response: a \<^verbatim>\<open>KnownError\<close> whose message
    holds \<^verbatim>\<open>error.request.hostname\<close> and \<^verbatim>\<open>error.request.syscall\<close>.
  \<^item> Otherwise a response with status 429: a \<^verbatim>\<open>KnownError\<close> with the text on quota
    and billing, followed by the whole body as \<open>messageString\<close> renders it (the body
    is read in full, parsed as JSON when it parses, and written by \<^verbatim>\<open>JSON.stringify\<close>).
  \<^item> Otherwise a response with a body (a truthy \<^verbatim>\<open>message\<close>): a \<^verbatim>\<open>KnownError\<close> built
    from the status code and that body. The body is appended to the result of
    \<open>dedent\<close>; the status code is a value of its template, so the message contains
    it when the result of \<open>dedent\<close> does.
  \<^item> Otherwise the caught error is thrown again, unchanged.
  A failure of the call leaves \<open>generateCompletion\<close> with the result of this block.
\<close>

lemma on_error_branches:
  "(code err = Some ''ENOTFOUND'' \<and> request err = Some req \<longrightarrow>
      on_error e err = KnownError (''Error connecting to '' @ render (hostname req) @ '' ('' @
        render (syscall req) @ ''). Are you connected to the internet?'')) \<and>
   (code err \<noteq> Some ''ENOTFOUND'' \<and> response err = Some resp \<and> status resp = 429 \<longrightarrow>
      on_error e err = KnownError (dedent e quota_template [] @ [CHR 0x0A, CHR 0x0A] @
        messageString e (message_of e (response err)) @ [CHR 0x0A]) \<and>
      known_with (on_error e err) (messageString e (message_of e (response err)))) \<and>
   (code err \<noteq> Some ''ENOTFOUND'' \<and> response err = Some resp \<and> status resp \<noteq> 429 \<and>
    message_truthy e (message_of e (response err)) \<longrightarrow>
      on_error e err = KnownError (dedent e status_template [dec (status resp)] @ [CHR 0x0A, CHR 0x0A] @
        messageString e (message_of e (response err)) @ [CHR 0x0A]) \<and>
      known_with (on_error e err) (messageString e (message_of e (response err))) \<and>
      (includes_str (dedent e status_template [dec (status resp)]) (dec (status resp)) \<longrightarrow>
         known_with (on_error e err) (dec (status resp)))) \<and>
   (code err \<noteq> Some ''ENOTFOUND'' \<and>
    (response err = None \<or>
     (\<exists>r. response err = Some r \<and> status r \<noteq> 429 \<and> \<not> message_truthy e (message_of e (response err)))) \<longrightarrow>
      on_error e err = Rethrown err) \<and>
   (getOpenAi key apiEndpoint (request_of p number m) = Inl err \<longrightarrow>
      generateCompletion e getOpenAi p number key m apiEndpoint = Inl (on_error e err))"
proof (intro conjI impI)
  assume a: "code err = Some ''ENOTFOUND'' \<and> request err = Some req"
  then show "on_error e err = KnownError (''Error connecting to '' @ render (hostname req) @ '' ('' @
        render (syscall req) @ ''). Are you connected to the internet?'')"
    by (auto simp: on_error_def Let_def)
next
  assume a: "code err \<noteq> Some ''ENOTFOUND'' \<and> response err = Some resp \<and> status resp = 429"
  then show "on_error e err = KnownError (dedent e quota_template [] @ [CHR 0x0A, CHR 0x0A] @
        messageString e (message_of e (response err)) @ [CHR 0x0A])"
    by (auto simp: on_error_def Let_def)
  then show "known_with (on_error e err) (messageString e (message_of e (response err)))"
    using known_with_middle [of "dedent e quota_template [] @ [CHR 0x0A, CHR 0x0A]"
        "messageString e (message_of e (response err))" "[CHR 0x0A]"]
    by simp
next
  assume a: "code err \<noteq> Some ''ENOTFOUND'' \<and> response err = Some resp \<and> status resp \<noteq> 429 \<and>
    message_truthy e (message_of e (response err))"
  then show eq: "on_error e err = KnownError (dedent e status_template [dec (status resp)] @
        [CHR 0x0A, CHR 0x0A] @ messageString e (message_of e (response err)) @ [CHR 0x0A])"
    by (auto simp: on_error_def Let_def)
  then show "known_with (on_error e err) (messageString e (message_of e (response err)))"
    using known_with_middle [of "dedent e status_template [dec (status resp)] @ [CHR 0x0A, CHR 0x0A]"
        "messageString e (message_of e (response err))" "[CHR 0x0A]"]
    by simp
  assume "includes_str (dedent e status_template [dec (status resp)]) (dec (status resp))"
  then show "known_with (on_error e err) (dec (status resp))"
    unfolding eq by (rule known_with_first)
next
  assume "code err \<noteq> Some ''ENOTFOUND'' \<and>
    (response err = None \<or>
     (\<exists>r. response err = Some r \<and> status r \<noteq> 429 \<and> \<not> message_truthy e (message_of e (response err))))"
  then show "on_error e err = Rethrown err"
    by (auto simp: on_error_def Let_def)
next
  assume "getOpenAi key apiEndpoint (request_of p number m) = Inl err"
  then show "generateCompletion e getOpenAi p number key m apiEndpoint = Inl (on_error e err)"
    by (simp add: generateCompletion_def)
qed

text \<open>The three later branches on the errors of the examples.\<close>

lemma on_error_examples:
  "messageString demo_env (message_of demo_env (response err_quota)) = [CHR 0x22] @ ''quota exceeded'' @ [CHR 0x22] \<and>
   on_error demo_env err_quota = KnownError quota_message \<and>
   known_with (on_error demo_env err_quota) ([CHR 0x22] @ ''quota exceeded'' @ [CHR 0x22]) \<and>
   known_with (on_error demo_env err_server) ([CHR 0x22] @ ''server error'' @ [CHR 0x22]) \<and>
   known_with (on_error demo_env err_server) ''500'' \<and>
   on_error demo_env err_reset = Rethrown err_reset \<and>
   generateCompletion demo_env (\<lambda>k ep r. Inl err_reset) (Text ''list files'') None ''key'' None ''url''
     = Inl (Rethrown err_reset)"
proof -
  have q: "code err_quota \<noteq> Some ''ENOTFOUND''"
    "response err_quota = Some \<lparr>status = 429, response_data = Some (IncomingMessage ''quota exceeded'')\<rparr>"
    by (simp_all add: err_quota_def)
  have qm: "messageString demo_env (message_of demo_env (response err_quota)) =
      [CHR 0x22] @ ''quota exceeded'' @ [CHR 0x22]"
    by code_simp
  have s: "code err_server \<noteq> Some ''ENOTFOUND''"
    "response err_server = Some \<lparr>status = 500, response_data = Some (IncomingMessage ''server error'')\<rparr>"
    by (simp_all add: err_server_def)
  have sm: "messageString demo_env (message_of demo_env (response err_server)) =
      [CHR 0x22] @ ''server error'' @ [CHR 0x22]"
    "message_truthy demo_env (message_of demo_env (response err_server))"
    by code_simp+
  have dc: "dec 500 = ''500''"
    by (simp add: dec.simps digit_def)
  have di: "includes_str (dedent demo_env status_template [dec 500]) (dec 500)"
    unfolding dc by code_simp
  have r: "code err_reset \<noteq> Some ''ENOTFOUND''" "response err_reset = None"
    by (simp_all add: err_reset_def)
  have dd: "dedent demo_env = interleave"
    by (simp add: demo_env_def)
  let ?rq = "\<lparr>status = 429, response_data = Some (IncomingMessage ''quota exceeded'')\<rparr>"
  have p2: "code err_quota \<noteq> Some ''ENOTFOUND'' \<and> response err_quota = Some ?rq \<and> status ?rq = 429"
    using q by simp
  note c2 = on_error_branches [where err = err_quota and e = demo_env and resp = ?rq,
      THEN conjunct2, THEN conjunct1, THEN mp, OF p2]
  have 2: "on_error demo_env err_quota = KnownError quota_message"
    using c2 [THEN conjunct1] by (simp add: qm dd quota_message_def)
  have k2b: "known_with (on_error demo_env err_quota) ([CHR 0x22] @ ''quota exceeded'' @ [CHR 0x22])"
    using c2 [THEN conjunct2] by (simp only: qm)
  let ?rs = "\<lparr>status = 500, response_data = Some (IncomingMessage ''server error'')\<rparr>"
  have st: "status ?rs = 500" by simp
  have p3: "code err_server \<noteq> Some ''ENOTFOUND'' \<and> response err_server = Some ?rs \<and>
      status ?rs \<noteq> 429 \<and> message_truthy demo_env (message_of demo_env (response err_server))"
    using s sm by simp
  note c3 = on_error_branches [where err = err_server and e = demo_env and resp = ?rs,
      THEN conjunct2, THEN conjunct2, THEN conjunct1, THEN mp, OF p3]
  have 3: "known_with (on_error demo_env err_server) ([CHR 0x22] @ ''server error'' @ [CHR 0x22])"
    using c3 [THEN conjunct2, THEN conjunct1] by (simp only: sm(1))
  have di': "includes_str (dedent demo_env status_template [dec (status ?rs)]) (dec (status ?rs))"
    using di by (simp only: st)
  have k3b: "known_with (on_error demo_env err_server) ''500''"
    using c3 [THEN conjunct2, THEN conjunct2, THEN mp, OF di'] by (simp only: st dc)
  have p4: "code err_reset \<noteq> Some ''ENOTFOUND'' \<and>
      (response err_reset = None \<or>
       (\<exists>r. response err_reset = Some r \<and> status r \<noteq> 429 \<and>
          \<not> message_truthy demo_env (message_of demo_env (response err_reset))))"
    using r by simp
  from on_error_branches [where err = err_reset and e = demo_env,
      THEN conjunct2, THEN conjunct2, THEN conjunct2, THEN conjunct1, THEN mp, OF p4]
  have 4: "on_error demo_env err_reset = Rethrown err_reset" .
  have p5: "(\<lambda>k ep r. Inl err_reset) ''key'' ''url'' (request_of (Text ''list files'') None None) = Inl err_reset"
    by simp
  from on_error_branches [where getOpenAi = "\<lambda>k ep r. Inl err_reset" and key = "''key''"
      and apiEndpoint = "''url''" and p = "Text ''list files''" and number = None and m = None
      and err = err_reset and e = demo_env,
      THEN conjunct2, THEN conjunct2, THEN conjunct2, THEN conjunct2, THEN mp, OF p5]
  have 5: "generateCompletion demo_env (\<lambda>k ep r. Inl err_reset) (Text ''list files'') None ''key'' None ''url''
     = Inl (Rethrown err_reset)"
    unfolding 4 .
  from qm 2 k2b 3 k3b 4 5 show ?thesis by (intro conjI)
qed

text \<open>
  Claim C5. The block answers a failed name resolution with a \<^verbatim>\<open>KnownError\<close> that is
  meant to name the host: the message is built from \<^verbatim>\<open>error.request.hostname\<close> and
  \<^verbatim>\<open>error.request.syscall\<close>. The host and the system call of a failed lookup are
  properties of the error itself; the request that the client attaches to the error
  has neither. For the error of a failed lookup of any host, as the client throws it,
  the message therefore reads \<^verbatim>\<open>Error connecting to undefined (undefined)\<close>, in every
  environment: for \<^verbatim>\<open>api.openai.com\<close> the error names the host and the message does
  not. The later branches behave as the claim says (\<open>on_error_branches\<close>).
\<close>

theorem dns_failure_names_no_host:
  "code (dns_failure host) = Some ''ENOTFOUND'' \<and>
   error_hostname (dns_failure host) = Some host \<and>
   on_error e (dns_failure host) =
     KnownError ''Error connecting to undefined (undefined). Are you connected to the internet?'' \<and>
   \<not> known_with (on_error e (dns_failure ''api.openai.com'')) ''api.openai.com''"
proof -
  have eq: "on_error e (dns_failure h) =
     KnownError ''Error connecting to undefined (undefined). Are you connected to the internet?''" for h
    by (simp add: on_error_def dns_failure_def demo_request_def render_def)
  have "\<not> known_with
     (KnownError ''Error connecting to undefined (undefined). Are you connected to the internet?'')
     ''api.openai.com''"
    by code_simp
  with eq show ?thesis
    by (simp add: dns_failure_def)
qed

section \<open>The prompts and the environment\<close>

lemma run_and_then:
  "run w (and_then b f) =
     (case run w b of (a, qs) \<Rightarrow> case run w (f a) of (r, qs') \<Rightarrow> (r, qs @ qs'))"
  by (induction b) (auto split: prod.splits)

text \<open>
  A call depends on the environment through the detections it makes, and on nothing
  else: two environments that answer these alike give the same value and the same
  detections.
\<close>

lemma run_frame:
  "\<forall>q\<in>set (snd (run w b)). answer w q = answer w' q \<Longrightarrow> run w' b = run w b"
proof (induction b)
  case (Done a)
  then show ?case by simp
next
  case (Ask q k)
  from Ask.prems have q: "answer w' q = answer w q"
    by (simp split: prod.splits)
  from Ask.prems have f: "\<forall>x\<in>set (snd (run w (k (answer w q)))). answer w x = answer w' x"
    by (simp split: prod.splits)
  have "run w' (k (answer w q)) = run w (k (answer w q))"
  proof (rule Ask.IH)
    show "k (answer w q) \<in> range k" by simp
    show "\<forall>x\<in>set (snd (run w (k (answer w q)))). answer w x = answer w' x" by (rule f)
  qed
  with q show ?case by simp
qed

lemma run_getGenerationDetails:
  "run w (getGenerationDetails e) =
     (dedent e generation_template [os_name w, language w],
      [OperationSystemDetails, CurrentLanguageName])"
  by (simp add: getGenerationDetails_def getOperationSystemDetails_def getCurrentLanguagenName_def)

lemma run_builders:
  "run w (getFullPrompt e w0 p) =
     (dedent e full_template
        [dedent e shell_template [shell w0], dedent e generation_template [os_name w, language w], [], p],
      [OperationSystemDetails, CurrentLanguageName])"
  "run w (getRevisionPrompt e p script) =
     (dedent e revision_template [script, p, dedent e generation_template [os_name w, language w]],
      [OperationSystemDetails, CurrentLanguageName])"
  "run w (getExplanationPrompt e script) =
     (dedent e explanation_template [dedent e explainScript_template [], language w, script],
      [CurrentLanguageName])"
  by (simp_all add: getFullPrompt_def getRevisionPrompt_def getExplanationPrompt_def
      run_and_then run_getGenerationDetails getCurrentLanguagenName_def
      shellDetails_def getShellDetails_def detectShell_def explainScript_def
      explainInSecondRequest_def)

text \<open>
  Claim C9, as amended. In every environment \<open>w\<close> of a call, whatever else it holds,
  each prompt is a function of the prompt text (and the prior script, for a revision)
  and of three strings: the shell detected when the module was loaded, in the
  environment \<open>w0\<close> of that moment, and the name of the operating system and the
  current language of \<open>w\<close>. Two calls with the same arguments, in environments \<open>w\<close> and
  \<open>w'\<close> that may differ in their shell and in anything else, yield the same prompt when
  the operating system and the language are the same. The builders are not given these
  two strings: none of them is a value without a detection, each call makes the
  detections \<open>getOperationSystemDetails\<close> and \<open>getCurrentLanguagenName\<close> itself (the
  explanation prompt the second one only), and none detects the shell again.
\<close>

theorem prompts_read_the_environment:
  "(os_name w = os_name w' \<and> language w = language w' \<longrightarrow>
      run w (getFullPrompt e w0 p) = run w' (getFullPrompt e w0 p) \<and>
      run w (getRevisionPrompt e p script) = run w' (getRevisionPrompt e p script) \<and>
      run w (getExplanationPrompt e script) = run w' (getExplanationPrompt e script)) \<and>
   run w (getFullPrompt e w0 p) =
     (dedent e full_template
        [dedent e shell_template [shell w0], dedent e generation_template [os_name w, language w], [], p],
      [OperationSystemDetails, CurrentLanguageName]) \<and>
   run w (getRevisionPrompt e p script) =
     (dedent e revision_template [script, p, dedent e generation_template [os_name w, language w]],
      [OperationSystemDetails, CurrentLanguageName]) \<and>
   run w (getExplanationPrompt e script) =
     (dedent e explanation_template [dedent e explainScript_template [], language w, script],
      [CurrentLanguageName]) \<and>
   (\<forall>s. getFullPrompt e w0 p \<noteq> Done s) \<and>
   (\<forall>s. getRevisionPrompt e p script \<noteq> Done s) \<and>
   (\<forall>s. getExplanationPrompt e script \<noteq> Done s)"
proof (intro conjI impI)
  assume a: "os_name w = os_name w' \<and> language w = language w'"
  have "\<forall>q\<in>set (snd (run w (getFullPrompt e w0 p))). answer w q = answer w' q"
    using a by (simp add: run_builders)
  from run_frame [OF this] show "run w (getFullPrompt e w0 p) = run w' (getFullPrompt e w0 p)"
    by simp
  have "\<forall>q\<in>set (snd (run w (getRevisionPrompt e p script))). answer w q = answer w' q"
    using a by (simp add: run_builders)
  from run_frame [OF this]
  show "run w (getRevisionPrompt e p script) = run w' (getRevisionPrompt e p script)"
    by simp
  have "\<forall>q\<in>set (snd (run w (getExplanationPrompt e script))). answer w q = answer w' q"
    using a by (simp add: run_builders)
  from run_frame [OF this]
  show "run w (getExplanationPrompt e script) = run w' (getExplanationPrompt e script)"
    by simp
next
  show "run w (getFullPrompt e w0 p) =
     (dedent e full_template
        [dedent e shell_template [shell w0], dedent e generation_template [os_name w, language w], [], p],
      [OperationSystemDetails, CurrentLanguageName])"
    by (rule run_builders)
  show "run w (getRevisionPrompt e p script) =
     (dedent e revision_template [script, p, dedent e generation_template [os_name w, language w]],
      [OperationSystemDetails, CurrentLanguageName])"
    by (rule run_builders)
  show "run w (getExplanationPrompt e script) =
     (dedent e explanation_template [dedent e explainScript_template [], language w, script],
      [CurrentLanguageName])"
    by (rule run_builders)
  show "\<forall>s. getFullPrompt e w0 p \<noteq> Done s"
    by (simp add: getFullPrompt_def getGenerationDetails_def getOperationSystemDetails_def)
  show "\<forall>s. getRevisionPrompt e p script \<noteq> Done s"
    by (simp add: getRevisionPrompt_def getGenerationDetails_def getOperationSystemDetails_def)
  show "\<forall>s. getExplanationPrompt e script \<noteq> Done s"
    by (simp add: getExplanationPrompt_def getCurrentLanguagenName_def)
qed

theorem prompts_read_the_environment_witness:
  "os_name (demo_session ''/tmp'') = os_name (demo_world\<lparr>shell := ''fish''\<rparr>) \<and>
   language (demo_session ''/tmp'') = language (demo_world\<lparr>shell := ''fish''\<rparr>) \<and>
   shell (demo_session ''/tmp'') \<noteq> shell (demo_world\<lparr>shell := ''fish''\<rparr>) \<and>
   run (demo_session ''/tmp'') (getFullPrompt demo_env demo_world ''list files'') =
     run (demo_world\<lparr>shell := ''fish''\<rparr>) (getFullPrompt demo_env demo_world ''list files'') \<and>
   snd (run (demo_session ''/tmp'') (getFullPrompt demo_env demo_world ''list files'')) =
     [OperationSystemDetails, CurrentLanguageName]"
proof -
  have a: "os_name (demo_session ''/tmp'') = os_name (demo_world\<lparr>shell := ''fish''\<rparr>) \<and>
      language (demo_session ''/tmp'') = language (demo_world\<lparr>shell := ''fish''\<rparr>)"
    by (simp add: demo_session_def demo_world_def)
  have b: "shell (demo_session ''/tmp'') \<noteq> shell (demo_world\<lparr>shell := ''fish''\<rparr>)"
    by (simp add: demo_session_def demo_world_def)
  note t = prompts_read_the_environment [where w = "demo_session ''/tmp''"
      and w' = "demo_world\<lparr>shell := ''fish''\<rparr>" and e = demo_env and ?w0.0 = demo_world
      and p = "''list files''" and script = "''ls''"]
  from t [THEN conjunct1, THEN mp, OF a, THEN conjunct1]
  have 1: "run (demo_session ''/tmp'') (getFullPrompt demo_env demo_world ''list files'') =
     run (demo_world\<lparr>shell := ''fish''\<rparr>) (getFullPrompt demo_env demo_world ''list files'')" .
  from t [THEN conjunct2, THEN conjunct1]
  have 2: "snd (run (demo_session ''/tmp'') (getFullPrompt demo_env demo_world ''list files'')) =
     [OperationSystemDetails, CurrentLanguageName]"
    by simp
  from a b 1 2 show ?thesis by simp
qed

text \<open>
  The claim as stated fails: the call that builds the generation prompt detects the
  operating system and looks the language up, and the same prompt text yields another
  prompt once the current language has changed.
\<close>

theorem prompt_builder_detects:
  "snd (run demo_world (getFullPrompt demo_env demo_world ''list files'')) =
     [OperationSystemDetails, CurrentLanguageName] \<and>
   fst (run demo_world (getFullPrompt demo_env demo_world ''list files'')) \<noteq>
     fst (run (demo_world\<lparr>language := ''Deutsch''\<rparr>) (getFullPrompt demo_env demo_world ''list files''))"
  by code_simp

section \<open>extractScriptAndExplanation: the first block\<close>

lemma startsWith_closing:
  "startsWith s closing \<Longrightarrow> s = closing @ drop (length closing) s"
  by (auto simp: startsWith_iff)

lemma find_closing_sound:
  "find_closing r = Some (g, rest) \<Longrightarrow>
     r = g @ closing @ rest \<and> (\<forall>j<length g. \<not> startsWith (drop j r) closing)"
proof (induction r arbitrary: g rest)
  case Nil
  then show ?case by simp
next
  case (Cons c cs)
  show ?case
  proof (cases "startsWith (c # cs) closing")
    case True
    with Cons.prems have "g = []" "rest = drop (length closing) (c # cs)" by simp_all
    with startsWith_closing [OF True] show ?thesis by simp
  next
    case False
    with Cons.prems obtain g' where f: "find_closing cs = Some (g', rest)" and g: "g = c # g'"
      by (auto split: option.splits)
    from Cons.IH [OF f] have cs: "cs = g' @ closing @ rest"
      and m: "\<forall>j<length g'. \<not> startsWith (drop j cs) closing"
      by blast+
    have "\<not> startsWith (drop j (c # cs)) closing" if "j < length g" for j
    proof (cases j)
      case 0
      with False show ?thesis by simp
    next
      case (Suc i)
      with that g m show ?thesis by simp
    qed
    with cs g show ?thesis by simp
  qed
qed

lemma find_closing_complete: "find_closing (g @ closing @ rest) \<noteq> None"
proof (induction g)
  case Nil
  have "startsWith (closing @ rest) closing" by (rule startsWith_append)
  then show ?case by (simp add: closing_def)
next
  case (Cons c g)
  then show ?case by (auto split: option.splits)
qed

lemma try_space_sound:
  "try_space k s = Some m \<Longrightarrow> \<exists>j\<le>k. after_space j s = Some m"
proof (induction k)
  case 0
  then show ?case by simp
next
  case (Suc k)
  show ?case
  proof (cases "after_space (Suc k) s")
    case None
    with Suc.prems have "try_space k s = Some m" by simp
    from Suc.IH [OF this] show ?thesis by (auto intro: le_SucI)
  next
    case (Some a)
    with Suc.prems show ?thesis by auto
  qed
qed

lemma try_space_complete:
  "j \<le> k \<Longrightarrow> after_space j s \<noteq> None \<Longrightarrow> try_space k s \<noteq> None"
proof (induction k)
  case 0
  then show ?case by simp
next
  case (Suc k)
  show ?case
  proof (cases "j = Suc k")
    case True
    with Suc.prems show ?thesis by (auto split: option.splits)
  next
    case False
    with Suc.prems have "j \<le> k" by simp
    from Suc.IH [OF this Suc.prems(2)] show ?thesis by (auto split: option.splits)
  qed
qed

lemma after_space_sound:
  assumes "after_space j s = Some (g, rest)"
  shows "drop j s = CHR 0x0A # g @ closing @ rest \<and>
         (\<forall>i<length g. \<not> startsWith (drop i (g @ closing @ rest)) closing)"
proof -
  from assms have sw: "startsWith (drop j s) [CHR 0x0A]"
    and f: "find_closing (drop (Suc j) s) = Some (g, rest)"
    by (auto simp: after_space_def split: if_splits)
  from sw obtain r where r: "drop j s = CHR 0x0A # r" by (auto simp: startsWith_iff)
  have "drop (Suc j) s = drop 1 (drop j s)" by simp
  with r have d: "drop (Suc j) s = r" by simp
  from find_closing_sound [OF f] have e: "drop (Suc j) s = g @ closing @ rest" by blast
  from find_closing_sound [OF f]
  have "\<forall>i<length g. \<not> startsWith (drop i (drop (Suc j) s)) closing" by blast
  then have m: "\<forall>i<length g. \<not> startsWith (drop i (g @ closing @ rest)) closing"
    unfolding e .
  from r d e have "drop j s = CHR 0x0A # g @ closing @ rest" by simp
  with m show ?thesis by blast
qed

lemma take_takeWhile_all:
  "j \<le> length (takeWhile P s) \<Longrightarrow> list_all P (take j s)"
proof (induction s arbitrary: j)
  case Nil
  then show ?case by simp
next
  case (Cons c s)
  then show ?case by (cases j) (auto split: if_splits)
qed

lemma after_tag_sound:
  assumes "after_tag s = Some (g, rest)"
  shows "\<exists>ws. list_all is_space ws \<and> s = ws @ CHR 0x0A # g @ closing @ rest \<and>
           (\<forall>i<length g. \<not> startsWith (drop i (g @ closing @ rest)) closing)"
proof -
  from assms try_space_sound obtain j where j: "j \<le> length (takeWhile is_space s)"
    and a: "after_space j s = Some (g, rest)"
    unfolding after_tag_def by blast
  from after_space_sound [OF a] have d: "drop j s = CHR 0x0A # g @ closing @ rest"
    and m: "\<forall>i<length g. \<not> startsWith (drop i (g @ closing @ rest)) closing"
    by simp_all
  have "s = take j s @ drop j s" by simp
  with d have "s = take j s @ CHR 0x0A # g @ closing @ rest" by simp
  with take_takeWhile_all [OF j] m show ?thesis by blast
qed

lemma after_tag_complete:
  assumes "list_all is_space ws"
  shows "after_tag (ws @ CHR 0x0A # g @ closing @ rest) \<noteq> None"
proof -
  let ?s = "ws @ CHR 0x0A # g @ closing @ rest"
  from assms have "takeWhile is_space ?s = ws @ takeWhile is_space (CHR 0x0A # g @ closing @ rest)"
    by (simp add: list_all_iff)
  then have le: "length ws \<le> length (takeWhile is_space ?s)" by simp
  have "after_space (length ws) ?s = find_closing (g @ closing @ rest)"
    by (simp add: after_space_def)
  then have "after_space (length ws) ?s \<noteq> None"
    by (simp add: find_closing_complete)
  from try_space_complete [OF le this] show ?thesis by (simp add: after_tag_def)
qed

lemma starts_ci_iff: "starts_ci s tag \<longleftrightarrow> map lower (take (length tag) s) = tag"
proof
  assume "starts_ci s tag"
  then obtain r where r: "map lower (take (length tag) s) = tag @ r"
    by (auto simp: starts_ci_def startsWith_iff)
  then have "length (tag @ r) \<le> length tag"
    by (metis length_map length_take min.cobounded2)
  with r show "map lower (take (length tag) s) = tag" by simp
next
  assume "map lower (take (length tag) s) = tag"
  then show "starts_ci s tag"
    using startsWith_append [of tag "[]"] by (simp add: starts_ci_def)
qed

lemma starts_ci_append:
  assumes "map lower t = tag"
  shows "starts_ci (t @ x) tag" and "drop (length tag) (t @ x) = x"
proof -
  from assms have l: "length tag = length t" by auto
  with assms show "starts_ci (t @ x) tag" by (simp add: starts_ci_iff)
  from l show "drop (length tag) (t @ x) = x" by simp
qed

lemma after_ci_sound:
  assumes "after_ci tag s = Some (g, rest)"
  shows "\<exists>t ws. map lower t = tag \<and> list_all is_space ws \<and>
           s = t @ ws @ CHR 0x0A # g @ closing @ rest \<and>
           (\<forall>i<length g. \<not> startsWith (drop i (g @ closing @ rest)) closing)"
proof -
  from assms have c: "starts_ci s tag" and a: "after_tag (drop (length tag) s) = Some (g, rest)"
    by (auto simp: after_ci_def split: if_splits)
  from c have t: "map lower (take (length tag) s) = tag" by (simp add: starts_ci_iff)
  from after_tag_sound [OF a] obtain ws where
    ws: "list_all is_space ws" and d: "drop (length tag) s = ws @ CHR 0x0A # g @ closing @ rest"
    and m: "\<forall>i<length g. \<not> startsWith (drop i (g @ closing @ rest)) closing"
    by blast
  have "s = take (length tag) s @ drop (length tag) s" by simp
  with d have "s = take (length tag) s @ ws @ CHR 0x0A # g @ closing @ rest" by simp
  with t ws m show ?thesis by blast
qed

lemma after_ci_complete:
  assumes "map lower t = tag" "list_all is_space ws"
  shows "after_ci tag (t @ ws @ CHR 0x0A # g @ closing @ rest) \<noteq> None"
proof -
  let ?x = "ws @ CHR 0x0A # g @ closing @ rest"
  have c: "starts_ci (t @ ?x) tag" using assms(1) by (rule starts_ci_append(1))
  have d: "drop (length tag) (t @ ?x) = ?x" using assms(1) by (rule starts_ci_append(2))
  have "after_ci tag (t @ ?x) = after_tag ?x"
    by (simp only: after_ci_def c d if_True)
  with after_tag_complete [OF assms(2), of g rest] show ?thesis by simp
qed

lemma try_tags_sound:
  assumes "try_tags s = Some (g, rest)"
  shows "\<exists>tag ws. tag_ok tag \<and> list_all is_space ws \<and> s = tag @ ws @ CHR 0x0A # g @ closing @ rest \<and>
           (\<forall>i<length g. \<not> startsWith (drop i (g @ closing @ rest)) closing)"
proof -
  from assms consider
    (bash) "after_ci ''bash'' s = Some (g, rest)"
    | (sh) "after_ci ''sh'' s = Some (g, rest)"
    | (none) "after_tag s = Some (g, rest)"
    by (auto simp: try_tags_def split: option.splits)
  then show ?thesis
  proof cases
    case bash
    from after_ci_sound [OF bash] obtain t ws where a: "map lower t = ''bash''"
      and b: "list_all is_space ws \<and> s = t @ ws @ CHR 0x0A # g @ closing @ rest \<and>
        (\<forall>i<length g. \<not> startsWith (drop i (g @ closing @ rest)) closing)"
      by (elim exE conjE) auto
    from a have "tag_ok t" by (simp add: tag_ok_def)
    with b show ?thesis by blast
  next
    case sh
    from after_ci_sound [OF sh] obtain t ws where a: "map lower t = ''sh''"
      and b: "list_all is_space ws \<and> s = t @ ws @ CHR 0x0A # g @ closing @ rest \<and>
        (\<forall>i<length g. \<not> startsWith (drop i (g @ closing @ rest)) closing)"
      by (elim exE conjE) auto
    from a have "tag_ok t" by (simp add: tag_ok_def)
    with b show ?thesis by blast
  next
    case none
    have t: "tag_ok []" by (simp add: tag_ok_def)
    from after_tag_sound [OF none] obtain ws where
      "list_all is_space ws \<and> s = [] @ ws @ CHR 0x0A # g @ closing @ rest \<and>
        (\<forall>i<length g. \<not> startsWith (drop i (g @ closing @ rest)) closing)"
      by auto
    with t show ?thesis by blast
  qed
qed

lemma try_tags_complete:
  assumes "tag_ok tag" "list_all is_space ws"
  shows "try_tags (tag @ ws @ CHR 0x0A # g @ closing @ rest) \<noteq> None"
proof -
  let ?s = "tag @ ws @ CHR 0x0A # g @ closing @ rest"
  from assms(1) consider "map lower tag = ''bash''" | "map lower tag = ''sh''" | "tag = []"
    by (auto simp: tag_ok_def)
  then show ?thesis
  proof cases
    case 1
    from after_ci_complete [OF 1 assms(2), of g rest] show ?thesis
      by (auto simp: try_tags_def split: option.splits)
  next
    case 2
    from after_ci_complete [OF 2 assms(2), of g rest] show ?thesis
      by (auto simp: try_tags_def split: option.splits)
  next
    case 3
    with after_tag_complete [OF assms(2), of g rest] show ?thesis
      by (auto simp: try_tags_def split: option.splits)
  qed
qed

lemma match_here_sound:
  assumes "match_here s = Some (g, rest)"
  shows "\<exists>tag ws. tag_ok tag \<and> list_all is_space ws \<and>
           s = fence @ tag @ ws @ CHR 0x0A # g @ closing @ rest \<and>
           (\<forall>i<length g. \<not> startsWith (drop i (g @ closing @ rest)) closing)"
proof -
  from assms have f: "startsWith s fence" and t: "try_tags (drop (length fence) s) = Some (g, rest)"
    by (auto simp: match_here_def split: if_splits)
  from f obtain r where r: "s = fence @ r" by (auto simp: startsWith_iff)
  then have "drop (length fence) s = r" by simp
  with try_tags_sound [OF t] r show ?thesis by auto
qed

lemma match_here_complete: "block_at s \<Longrightarrow> match_here s \<noteq> None"
proof -
  assume "block_at s"
  then obtain tag ws g rest where t: "tag_ok tag" and w: "list_all is_space ws"
    and s: "s = fence @ tag @ ws @ CHR 0x0A # g @ closing @ rest"
    unfolding block_at_def by blast
  have "startsWith s fence" unfolding s by (rule startsWith_append)
  moreover have "drop (length fence) s = tag @ ws @ CHR 0x0A # g @ closing @ rest"
    unfolding s by simp
  ultimately show ?thesis
    using try_tags_complete [OF t w, of g rest] by (simp add: match_here_def)
qed

lemma match_here_iff: "match_here s \<noteq> None \<longleftrightarrow> block_at s"
proof
  assume "match_here s \<noteq> None"
  then obtain g rest where "match_here s = Some (g, rest)" by auto
  from match_here_sound [OF this] show "block_at s" unfolding block_at_def by blast
next
  assume "block_at s"
  then show "match_here s \<noteq> None" by (rule match_here_complete)
qed

lemma search_from_Some:
  "search_from acc s = Some (b, g, rest) \<Longrightarrow>
     \<exists>pre suf. s = pre @ suf \<and> b = rev acc @ pre \<and> match_here suf = Some (g, rest) \<and>
       (\<forall>i<length pre. match_here (drop i s) = None)"
proof (induction s arbitrary: acc)
  case Nil
  then show ?case by simp
next
  case (Cons c cs)
  show ?case
  proof (cases "match_here (c # cs)")
    case (Some m)
    with Cons.prems have "c # cs = [] @ (c # cs) \<and> b = rev acc @ [] \<and>
        match_here (c # cs) = Some (g, rest) \<and> (\<forall>i<length ([]::string). match_here (drop i (c # cs)) = None)"
      by auto
    then show ?thesis by blast
  next
    case None
    with Cons.prems have "search_from (c # acc) cs = Some (b, g, rest)" by simp
    from Cons.IH [OF this] obtain pre suf where
      p: "cs = pre @ suf" "b = rev (c # acc) @ pre" "match_here suf = Some (g, rest)"
      and m: "\<forall>i<length pre. match_here (drop i cs) = None"
      by blast
    have "match_here (drop i (c # cs)) = None" if "i < length (c # pre)" for i
    proof (cases i)
      case 0
      with None show ?thesis by simp
    next
      case (Suc k)
      with that m show ?thesis by simp
    qed
    with p have "c # cs = (c # pre) @ suf \<and> b = rev acc @ (c # pre) \<and>
        match_here suf = Some (g, rest) \<and> (\<forall>i<length (c # pre). match_here (drop i (c # cs)) = None)"
      by simp
    then show ?thesis by blast
  qed
qed

lemma match_here_Nil: "match_here [] = None"
  by (simp add: match_here_def fence_def)

lemma search_from_None:
  "search_from acc s = None \<longleftrightarrow> (\<forall>i. match_here (drop i s) = None)"
proof (induction s arbitrary: acc)
  case Nil
  then show ?case by (simp add: match_here_Nil)
next
  case (Cons c cs)
  show ?case
  proof (cases "match_here (c # cs)")
    case (Some m)
    then have "match_here (drop 0 (c # cs)) \<noteq> None" by simp
    then have "\<exists>i. match_here (drop i (c # cs)) \<noteq> None" by (rule exI)
    with Some show ?thesis by (auto split: prod.splits)
  next
    case None
    have "(\<forall>i. match_here (drop i (c # cs)) = None) \<longleftrightarrow> (\<forall>i. match_here (drop i cs) = None)"
    proof
      assume a: "\<forall>i. match_here (drop i (c # cs)) = None"
      show "\<forall>i. match_here (drop i cs) = None"
      proof
        fix i from a [rule_format, of "Suc i"] show "match_here (drop i cs) = None" by simp
      qed
    next
      assume a: "\<forall>i. match_here (drop i cs) = None"
      show "\<forall>i. match_here (drop i (c # cs)) = None"
      proof
        fix i show "match_here (drop i (c # cs)) = None"
          using a None by (cases i) simp_all
      qed
    qed
    with None Cons.IH [of "c # acc"] show ?thesis by simp
  qed
qed

text \<open>
  Claim C4, as amended. The search fails exactly when no fenced block starts at any
  index of the input; then the script is empty and the explanation is the trimmed
  input. When it succeeds, the input is the text \<open>before\<close>, a fenced block with the
  interior \<open>g\<close>, and the text \<open>rest\<close>; no block starts at an earlier index, and the
  interior ends at the first closing. If the interior is not empty, the script is the
  trimmed interior and the explanation is the trimmed input without the block. If the
  interior is empty, the result is the one of an input without a block: the test
  \<^verbatim>\<open>match && match[1]\<close> fails on the empty string.
\<close>

theorem extract_first_block:
  "(codeBlockRegex s = None \<longleftrightarrow> (\<forall>i. \<not> block_at (drop i s))) \<and>
   (codeBlockRegex s = None \<longrightarrow> extractScriptAndExplanation s = ([], trim s)) \<and>
   (\<forall>before g rest. codeBlockRegex s = Some (before, g, rest) \<longrightarrow>
      (\<exists>tag ws. tag_ok tag \<and> list_all is_space ws \<and>
         s = before @ fence @ tag @ ws @ CHR 0x0A # g @ closing @ rest) \<and>
      (\<forall>i<length before. \<not> block_at (drop i s)) \<and>
      (\<forall>j<length g. \<not> startsWith (drop j (g @ closing @ rest)) closing) \<and>
      extractScriptAndExplanation s =
        (if g = [] then ([], trim s) else (trim g, trim (before @ rest))))"
proof (intro conjI)
  have mb: "(match_here x = None) = (\<not> block_at x)" for x
    using match_here_iff [of x] by blast
  then show "codeBlockRegex s = None \<longleftrightarrow> (\<forall>i. \<not> block_at (drop i s))"
    by (simp add: codeBlockRegex_def search_from_None)
  show "codeBlockRegex s = None \<longrightarrow> extractScriptAndExplanation s = ([], trim s)"
    by (simp add: extractScriptAndExplanation_def)
  show "\<forall>before g rest. codeBlockRegex s = Some (before, g, rest) \<longrightarrow>
      (\<exists>tag ws. tag_ok tag \<and> list_all is_space ws \<and>
         s = before @ fence @ tag @ ws @ CHR 0x0A # g @ closing @ rest) \<and>
      (\<forall>i<length before. \<not> block_at (drop i s)) \<and>
      (\<forall>j<length g. \<not> startsWith (drop j (g @ closing @ rest)) closing) \<and>
      extractScriptAndExplanation s =
        (if g = [] then ([], trim s) else (trim g, trim (before @ rest)))"
  proof (intro allI impI)
    fix before g rest
    assume a: "codeBlockRegex s = Some (before, g, rest)"
    then obtain pre suf where s: "s = pre @ suf" and b: "before = pre"
      and m: "match_here suf = Some (g, rest)"
      and l: "\<forall>i<length pre. match_here (drop i s) = None"
      unfolding codeBlockRegex_def using search_from_Some [of "[]" s before g rest] by auto
    from match_here_sound [OF m] obtain tag ws where t: "tag_ok tag" "list_all is_space ws"
      and suf: "suf = fence @ tag @ ws @ CHR 0x0A # g @ closing @ rest"
      and mn: "\<forall>i<length g. \<not> startsWith (drop i (g @ closing @ rest)) closing"
      by blast
    from t s b suf have 1: "\<exists>tag ws. tag_ok tag \<and> list_all is_space ws \<and>
         s = before @ fence @ tag @ ws @ CHR 0x0A # g @ closing @ rest"
      by blast
    from l b mb have 2: "\<forall>i<length before. \<not> block_at (drop i s)"
      by simp
    from a have 3: "extractScriptAndExplanation s =
        (if g = [] then ([], trim s) else (trim g, trim (before @ rest)))"
      by (simp add: extractScriptAndExplanation_def)
    from 1 2 mn 3 show "(\<exists>tag ws. tag_ok tag \<and> list_all is_space ws \<and>
         s = before @ fence @ tag @ ws @ CHR 0x0A # g @ closing @ rest) \<and>
      (\<forall>i<length before. \<not> block_at (drop i s)) \<and>
      (\<forall>j<length g. \<not> startsWith (drop j (g @ closing @ rest)) closing) \<and>
      extractScriptAndExplanation s =
        (if g = [] then ([], trim s) else (trim g, trim (before @ rest)))"
      by (intro conjI)
  qed
qed

theorem extract_first_block_witness:
  "codeBlockRegex demo_answer = Some ([], ''ECHO 1'', CHR 0x0A # ''Prints 1.'') \<and>
   extractScriptAndExplanation demo_answer = (''ECHO 1'', ''Prints 1.'') \<and>
   codeBlockRegex ''I cannot help with that.'' = None \<and>
   extractScriptAndExplanation ''I cannot help with that.'' = ([], ''I cannot help with that.'')"
proof -
  have c1: "codeBlockRegex demo_answer = Some ([], ''ECHO 1'', CHR 0x0A # ''Prints 1.'')"
    by code_simp
  have t1: "trim ''ECHO 1'' = ''ECHO 1''" "trim (CHR 0x0A # ''Prints 1.'') = ''Prints 1.''"
    by code_simp+
  have c2: "codeBlockRegex ''I cannot help with that.'' = None"
    by code_simp
  have t2: "trim ''I cannot help with that.'' = ''I cannot help with that.''"
    by code_simp
  from extract_first_block [of demo_answer, THEN conjunct2, THEN conjunct2, rule_format, OF c1,
      THEN conjunct2, THEN conjunct2, THEN conjunct2]
  have e1: "extractScriptAndExplanation demo_answer = (''ECHO 1'', ''Prints 1.'')"
    by (simp add: t1)
  from extract_first_block [of "''I cannot help with that.''", THEN conjunct2, THEN conjunct1,
      THEN mp, OF c2]
  have e2: "extractScriptAndExplanation ''I cannot help with that.'' = ([], ''I cannot help with that.'')"
    by (simp only: t2)
  from c1 e1 c2 e2 show ?thesis by (intro conjI)
qed

text \<open>
  The claim as stated fails on a block with an empty interior: the explanation is the
  whole input, fences included, not the input without the block.
\<close>

theorem empty_block_not_removed:
  "empty_block = [] @ fence @ [] @ [] @ CHR 0x0A # [] @ closing @ [] \<and>
   extractScriptAndExplanation empty_block = ([], empty_block) \<and>
   extractScriptAndExplanation empty_block \<noteq> ([], [])"
  by code_simp

end
